theory Spec2Isabelle
  imports Main "HOL-Library.AList"
begin

section \<open>Python values used by \<open>terminal_focus.py\<close>\<close>

subsection \<open>Strings\<close>

text \<open>
  A Python \<open>str\<close> is a sequence of Unicode code points, so a string is a list of
  natural numbers. \<open>lit\<close> turns an ASCII literal of the source into that form.
\<close>

type_synonym ustr = "nat list"

definition lit :: "string \<Rightarrow> ustr" where
  "lit s = map of_char s"

definition in_ranges :: "(nat \<times> nat) list \<Rightarrow> nat \<Rightarrow> bool" where
  "in_ranges rs c = list_ex (\<lambda>(lo, hi). lo \<le> c \<and> c \<le> hi) rs"

text \<open>
  \<open>str.isspace\<close> on one code point (the characters \<open>str.strip()\<close> removes):
  U+0009..U+000D, U+001C..U+0020, U+0085, U+00A0, U+1680, U+2000..U+200A, U+2028,
  U+2029, U+202F, U+205F, U+3000.
\<close>

definition space_ranges :: "(nat \<times> nat) list" where
  "space_ranges =
     [(9, 13), (28, 32), (133, 133), (160, 160), (5760, 5760), (8192, 8202),
      (8232, 8233), (8239, 8239), (8287, 8287), (12288, 12288)]"

definition isspace_cp :: "nat \<Rightarrow> bool" where
  "isspace_cp c = in_ranges space_ranges c"

text \<open>
  \<open>str.isdigit\<close> on one code point: the code points whose Unicode Numeric_Type is
  Decimal or Digit (table of Unicode 14.0.0, the one of CPython 3.11). The ASCII
  digits are the first range; superscripts (U+00B2, U+00B3, U+00B9), the digits of
  other scripts and the circled digits follow.
\<close>

definition digit_ranges :: "(nat \<times> nat) list" where
  "digit_ranges =
     [(48, 57), (178, 179), (185, 185), (1632, 1641), (1776, 1785), (1984, 1993),
      (2406, 2415), (2534, 2543), (2662, 2671), (2790, 2799), (2918, 2927),
      (3046, 3055), (3174, 3183), (3302, 3311), (3430, 3439), (3558, 3567),
      (3664, 3673), (3792, 3801), (3872, 3881), (4160, 4169), (4240, 4249),
      (4969, 4977), (6112, 6121), (6160, 6169), (6470, 6479), (6608, 6618),
      (6784, 6793), (6800, 6809), (6992, 7001), (7088, 7097), (7232, 7241),
      (7248, 7257), (8304, 8304), (8308, 8313), (8320, 8329), (9312, 9320),
      (9332, 9340), (9352, 9360), (9450, 9450), (9461, 9469), (9471, 9471),
      (10102, 10110), (10112, 10120), (10122, 10130), (42528, 42537),
      (43216, 43225), (43264, 43273), (43472, 43481), (43504, 43513),
      (43600, 43609), (44016, 44025), (65296, 65305), (66720, 66729),
      (68160, 68163), (68912, 68921), (69216, 69224), (69714, 69722),
      (69734, 69743), (69872, 69881), (69942, 69951), (70096, 70105),
      (70384, 70393), (70736, 70745), (70864, 70873), (71248, 71257),
      (71360, 71369), (71472, 71481), (71904, 71913), (72016, 72025),
      (72784, 72793), (73040, 73049), (73120, 73129), (92768, 92777),
      (92864, 92873), (93008, 93017), (120782, 120831), (123200, 123209),
      (123632, 123641), (125264, 125273), (127232, 127242), (130032, 130041)]"

definition isdigit_cp :: "nat \<Rightarrow> bool" where
  "isdigit_cp c = in_ranges digit_ranges c"

text \<open>\<open>s.strip()\<close>: whitespace is dropped at both ends.\<close>

definition strip :: "ustr \<Rightarrow> ustr" where
  "strip s = rev (dropWhile isspace_cp (rev (dropWhile isspace_cp s)))"

text \<open>\<open>s.isdigit()\<close>: false on the empty string, else every code point is a digit.\<close>

definition isdigit :: "ustr \<Rightarrow> bool" where
  "isdigit s = (s \<noteq> [] \<and> list_all isdigit_cp s)"

text \<open>
  \<open>s.lower()\<close>. On a string of ASCII code points only, \<open>A\<close>..\<open>Z\<close> become
  \<open>a\<close>..\<open>z\<close> and nothing else changes. On any other string the result comes from
  the Unicode case tables of the interpreter, which are not part of the repository:
  that function is the parameter \<open>unicode_lower\<close>.
\<close>

definition ascii_lower_cp :: "nat \<Rightarrow> nat" where
  "ascii_lower_cp c = (if 65 \<le> c \<and> c \<le> 90 then c + 32 else c)"

definition lower :: "(ustr \<Rightarrow> ustr) \<Rightarrow> ustr \<Rightarrow> ustr" where
  "lower unicode_lower s =
     (if list_all (\<lambda>c. c < 128) s then map ascii_lower_cp s else unicode_lower s)"

text \<open>\<open>str(n)\<close> for an integer: its decimal numeral, with a minus sign when negative.\<close>

fun str_nat :: "nat \<Rightarrow> ustr" where
  "str_nat n = (if n < 10 then [48 + n] else str_nat (n div 10) @ [48 + n mod 10])"

declare str_nat.simps [simp del]

definition str_int :: "int \<Rightarrow> ustr" where
  "str_int i = (if i < 0 then 45 # str_nat (nat (- i)) else str_nat (nat i))"

subsection \<open>Decoded JSON\<close>

text \<open>
  What \<open>json.loads\<close> returns. A number with a fraction or an exponent (and \<open>NaN\<close>,
  \<open>Infinity\<close>) is a Python float; it is kept as the text it had in the document,
  which determines the float. An object is a \<open>dict\<close>: a list of pairs whose keys are
  distinct, in insertion order; \<open>map_of\<close> looks a key up.
\<close>

datatype json =
    JNull
  | JBool bool
  | JInt int
  | JFloat ustr
  | JString ustr
  | JArray "json list"
  | JObject "(ustr \<times> json) list"

text \<open>
  \<open>str(v)\<close>. For a float, a list or a dict Python prints the \<open>repr\<close>, library code
  that the model takes as the parameter \<open>repr\<close>.
\<close>

definition py_str :: "(json \<Rightarrow> ustr) \<Rightarrow> json \<Rightarrow> ustr" where
  "py_str repr v =
     (case v of
        JString s \<Rightarrow> s
      | JInt i \<Rightarrow> str_int i
      | JBool b \<Rightarrow> (if b then lit ''True'' else lit ''False'')
      | JNull \<Rightarrow> lit ''None''
      | _ \<Rightarrow> repr v)"

definition type_name :: "json \<Rightarrow> ustr" where
  "type_name v =
     (case v of
        JNull \<Rightarrow> lit ''NoneType''
      | JBool _ \<Rightarrow> lit ''bool''
      | JInt _ \<Rightarrow> lit ''int''
      | JFloat _ \<Rightarrow> lit ''float''
      | JString _ \<Rightarrow> lit ''str''
      | JArray _ \<Rightarrow> lit ''list''
      | JObject _ \<Rightarrow> lit ''dict'')"

subsection \<open>Exceptions\<close>

text \<open>
  The exceptions the modelled calls can raise, each with its \<open>str(e)\<close>.
  \<open>OtherException\<close> is any other subclass of \<open>Exception\<close> (a \<open>ValueError\<close>, an
  \<open>OSError\<close>, ...); \<open>BaseExceptionOnly\<close> is one that is not a subclass of
  \<open>Exception\<close> (\<open>KeyboardInterrupt\<close>, \<open>SystemExit\<close>), which \<open>except Exception\<close>
  does not catch.
\<close>

datatype exn =
    JSONDecodeError ustr
  | AttributeError ustr
  | TimeoutExpired ustr
  | OtherException ustr
  | BaseExceptionOnly ustr

fun is_Exception :: "exn \<Rightarrow> bool" where
  "is_Exception (BaseExceptionOnly _) = False"
| "is_Exception _ = True"

fun is_JSONDecodeError :: "exn \<Rightarrow> bool" where
  "is_JSONDecodeError (JSONDecodeError _) = True"
| "is_JSONDecodeError _ = False"

fun is_TimeoutExpired :: "exn \<Rightarrow> bool" where
  "is_TimeoutExpired (TimeoutExpired _) = True"
| "is_TimeoutExpired _ = False"

fun str_exn :: "exn \<Rightarrow> ustr" where
  "str_exn (JSONDecodeError m) = m"
| "str_exn (AttributeError m) = m"
| "str_exn (TimeoutExpired m) = m"
| "str_exn (OtherException m) = m"
| "str_exn (BaseExceptionOnly m) = m"

text \<open>
  \<open>data.get(key, default)\<close>. Only a dict has the method; on any other decoded value
  the attribute lookup raises \<open>AttributeError\<close>.
\<close>

definition dict_get :: "json \<Rightarrow> ustr \<Rightarrow> json \<Rightarrow> exn + json" where
  "dict_get data key dflt =
     (case data of
        JObject kvs \<Rightarrow> Inr (case map_of kvs key of None \<Rightarrow> dflt | Some v \<Rightarrow> v)
      | _ \<Rightarrow> Inl (AttributeError
                 ([39] @ type_name data @ [39] @ lit '' object has no attribute ''
                  @ [39] @ lit ''get'' @ [39])))"

section \<open>SessionStore\<close>

text \<open>
  \<open>_sessions\<close> maps a window id to the dict \<open>{event_title, event_msg, unseen}\<close>.
  The dict of sessions is a list of pairs with distinct keys in insertion order;
  the lock is not modelled (calls are taken one at a time).
\<close>

record session =
  event_title :: ustr
  event_msg :: ustr
  unseen :: bool

type_synonym session_store = "(ustr \<times> session) list"

definition empty_store :: session_store where
  "empty_store = []"

definition upsert :: "ustr \<Rightarrow> ustr \<Rightarrow> ustr \<Rightarrow> session_store \<Rightarrow> session_store" where
  "upsert window_id e_title e_msg sessions =
     AList.update window_id
       \<lparr>event_title = e_title, event_msg = e_msg, unseen = True\<rparr> sessions"

definition remove :: "ustr \<Rightarrow> session_store \<Rightarrow> session_store" where
  "remove window_id sessions = AList.delete window_id sessions"

definition mark_all_seen :: "session_store \<Rightarrow> session_store" where
  "mark_all_seen sessions = map (\<lambda>(k, s). (k, s\<lparr>unseen := False\<rparr>)) sessions"

definition get_all :: "session_store \<Rightarrow> (ustr \<times> session) list" where
  "get_all sessions = map (\<lambda>(k, v). (k, v)) sessions"

definition has_unseen :: "session_store \<Rightarrow> bool" where
  "has_unseen sessions = list_ex (\<lambda>(k, s). unseen s) sessions"

definition count :: "session_store \<Rightarrow> nat" where
  "count sessions = length sessions"

section \<open>The running program\<close>

text \<open>
  Library code the program calls and the repository does not contain is a parameter
  of the model: the Unicode part of \<open>str.lower\<close>, the \<open>repr\<close> of floats, lists and
  dicts, and \<open>subprocess.run\<close>, which maps the argument list and the timeout to
  either the exception it raises or a normal return.
\<close>

record pylib =
  unicode_lower :: "ustr \<Rightarrow> ustr"
  repr :: "json \<Rightarrow> ustr"
  subprocess_run :: "ustr list \<Rightarrow> nat \<Rightarrow> exn + unit"

text \<open>
  The calls with an effect, in the order the program makes them. The list is a
  history kept beside the state, used to state what happens before what.
\<close>

datatype event =
    Store_upsert ustr ustr ustr
  | Store_remove ustr
  | Store_mark_all_seen
  | Respond nat "(ustr \<times> ustr) list"
  | Dirty_set
  | Rebuild_menu
  | Subprocess_run "ustr list" nat

datatype callback = No_callback | Click ustr | Quit

datatype menu_item = MenuItem ustr callback | Separator

text \<open>
  \<open>TerminalFocusApp\<close>: the \<open>_dirty\<close> event, the title (\<open>None\<close> until it is first
  assigned: \<open>__init__\<close> passes only the name), \<open>_session_keys\<close>, and the items given
  to \<open>menu.add\<close> since the last \<open>menu.clear()\<close>.
\<close>

record app =
  dirty :: bool
  title :: "ustr option"
  session_keys :: "ustr list"
  menu :: "menu_item list"

text \<open>
  \<open>app_ref_set\<close> tells whether \<open>EventHandler.app_ref\<close> holds the app (\<open>main\<close> sets
  it before the server starts) or is still \<open>None\<close>, its default.
\<close>

record world =
  store :: session_store
  app :: app
  app_ref_set :: bool
  log :: "event list"

definition store_upsert :: "ustr \<Rightarrow> ustr \<Rightarrow> ustr \<Rightarrow> world \<Rightarrow> world" where
  "store_upsert window_id e_title e_msg w =
     w\<lparr>store := upsert window_id e_title e_msg (store w),
       log := log w @ [Store_upsert window_id e_title e_msg]\<rparr>"

definition store_remove :: "ustr \<Rightarrow> world \<Rightarrow> world" where
  "store_remove window_id w =
     w\<lparr>store := remove window_id (store w), log := log w @ [Store_remove window_id]\<rparr>"

definition store_mark_all_seen :: "world \<Rightarrow> world" where
  "store_mark_all_seen w =
     w\<lparr>store := mark_all_seen (store w), log := log w @ [Store_mark_all_seen]\<rparr>"

subsection \<open>EventHandler\<close>

text \<open>
  \<open>_respond\<close> writes the status line, the headers and the body to the client's
  socket. \<open>send status_code body\<close> is the outcome of those writes: a normal return,
  or the exception they raise (\<open>BrokenPipeError\<close>, \<open>ConnectionResetError\<close> when the
  client has closed the connection). \<open>respond\<close> is the effect of a response that
  was written; \<open>respond_io\<close> is \<open>_respond\<close> with either outcome. An exception
  travels with the state it was raised in, and a response that was not written is
  not entered in the history.
\<close>

definition respond :: "nat \<Rightarrow> (ustr \<times> ustr) list \<Rightarrow> world \<Rightarrow> world" where
  "respond status_code body w = w\<lparr>log := log w @ [Respond status_code body]\<rparr>"

definition respond_io ::
  "(nat \<Rightarrow> (ustr \<times> ustr) list \<Rightarrow> exn + unit) \<Rightarrow> nat \<Rightarrow> (ustr \<times> ustr) list \<Rightarrow> world
   \<Rightarrow> (exn \<times> world) + world" where
  "respond_io send status_code body w =
     (case send status_code body of
        Inl e \<Rightarrow> Inl (e, w)
      | Inr _ \<Rightarrow> Inr (respond status_code body w))"

definition schedule_refresh :: "world \<Rightarrow> world" where
  "schedule_refresh w = w\<lparr>app := (app w)\<lparr>dirty := True\<rparr>, log := log w @ [Dirty_set]\<rparr>"

text \<open>
  The body of the \<open>try\<close> in \<open>do_POST\<close>. \<open>loaded\<close> is the outcome of its first three
  lines (\<open>int\<close> of the Content-Length header, \<open>rfile.read\<close>, \<open>json.loads\<close>): the
  exception raised there, or the decoded value. The store call comes before
  \<open>_respond\<close>, and \<open>schedule_refresh\<close> after it: when \<open>_respond\<close> raises, the store
  has changed and \<open>schedule_refresh\<close> is not reached.
\<close>

definition do_POST_try_io ::
  "(nat \<Rightarrow> (ustr \<times> ustr) list \<Rightarrow> exn + unit) \<Rightarrow> pylib \<Rightarrow> exn + json \<Rightarrow> world
   \<Rightarrow> (exn \<times> world) + world" where
  "do_POST_try_io send lib loaded w =
     (case loaded of Inl e \<Rightarrow> Inl (e, w) | Inr data \<Rightarrow>
     (case dict_get data (lit ''window_id'') (JString []) of Inl e \<Rightarrow> Inl (e, w) | Inr v1 \<Rightarrow>
     (case dict_get data (lit ''event_title'') (JString []) of Inl e \<Rightarrow> Inl (e, w) | Inr v2 \<Rightarrow>
     (case dict_get data (lit ''event_msg'') (JString []) of Inl e \<Rightarrow> Inl (e, w) | Inr v3 \<Rightarrow>
        (let window_id = strip (py_str (repr lib) v1);
             e_title = strip (py_str (repr lib) v2);
             e_msg = strip (py_str (repr lib) v3)
         in if window_id = [] \<or> e_title = [] then
              respond_io send 400
                [(lit ''error'', lit ''window_id and event_title are required'')] w
            else if \<not> isdigit window_id then
              respond_io send 400
                [(lit ''error'', lit ''window_id must be a numeric value'')] w
            else
              (case
                 (if lower (unicode_lower lib) e_title = lit ''terminate'' then
                    respond_io send 200
                      [(lit ''status'', lit ''removed''), (lit ''window_id'', window_id)]
                      (store_remove window_id w)
                  else
                    respond_io send 200
                      [(lit ''status'', lit ''registered''), (lit ''window_id'', window_id)]
                      (store_upsert window_id e_title e_msg w))
               of Inl raised \<Rightarrow> Inl raised
                | Inr w1 \<Rightarrow> Inr (if app_ref_set w1 then schedule_refresh w1 else w1)))))))"

text \<open>
  \<open>do_POST\<close> with its handlers: \<open>except json.JSONDecodeError\<close> answers 400,
  \<open>except Exception as e\<close> answers 500 with \<open>str(e)\<close>; anything else propagates.
  A handler runs in the state the exception was raised in, and an exception raised
  by \<open>_respond\<close> inside a handler propagates.
\<close>

definition do_POST_io ::
  "(nat \<Rightarrow> (ustr \<times> ustr) list \<Rightarrow> exn + unit) \<Rightarrow> pylib \<Rightarrow> exn + json \<Rightarrow> world
   \<Rightarrow> (exn \<times> world) + world" where
  "do_POST_io send lib loaded w =
     (case do_POST_try_io send lib loaded w of
        Inr w' \<Rightarrow> Inr w'
      | Inl (e, w1) \<Rightarrow>
          if is_JSONDecodeError e then
            respond_io send 400 [(lit ''error'', lit ''Invalid JSON'')] w1
          else if is_Exception e then
            respond_io send 500 [(lit ''error'', str_exn e)] w1
          else Inl (e, w1))"

text \<open>
  \<open>do_POST\<close> for a client that reads its response: every write returns, and an
  exception that propagates is returned without the state.
\<close>

definition do_POST :: "pylib \<Rightarrow> exn + json \<Rightarrow> world \<Rightarrow> exn + world" where
  "do_POST lib loaded w =
     map_sum fst id (do_POST_io (\<lambda>status_code body. Inr ()) lib loaded w)"

subsection \<open>AppleScript helper\<close>

text \<open>The f-string of \<open>focus_terminal_window\<close>: the id is put in as it is.\<close>

definition script :: "ustr \<Rightarrow> ustr" where
  "script window_id =
     [10] @ lit ''        tell application '' @ [34] @ lit ''Terminal'' @ [34] @ [10]
     @ lit ''            activate'' @ [10]
     @ lit ''            set targetWindow to missing value'' @ [10]
     @ lit ''            repeat with w in windows'' @ [10]
     @ lit ''                if id of w is '' @ window_id @ lit '' then'' @ [10]
     @ lit ''                    set targetWindow to w'' @ [10]
     @ lit ''                    exit repeat'' @ [10]
     @ lit ''                end if'' @ [10]
     @ lit ''            end repeat'' @ [10]
     @ lit ''            if targetWindow is not missing value then'' @ [10]
     @ lit ''                set index of targetWindow to 1'' @ [10]
     @ lit ''            end if'' @ [10]
     @ lit ''        end tell'' @ [10]
     @ lit ''    ''"

definition osascript_args :: "ustr \<Rightarrow> ustr list" where
  "osascript_args window_id = [lit ''osascript'', lit ''-e'', script window_id]"

text \<open>
  \<open>subprocess.run(..., timeout=5)\<close> inside \<open>try\<close>; the handler
  \<open>except (subprocess.TimeoutExpired, Exception): pass\<close> absorbs what it matches.
\<close>

definition focus_terminal_window :: "pylib \<Rightarrow> ustr \<Rightarrow> world \<Rightarrow> exn + world" where
  "focus_terminal_window lib window_id w =
     (let w1 = w\<lparr>log := log w @ [Subprocess_run (osascript_args window_id) 5]\<rparr>
      in case subprocess_run lib (osascript_args window_id) 5 of
           Inr _ \<Rightarrow> Inr w1
         | Inl e \<Rightarrow> if is_TimeoutExpired e \<or> is_Exception e then Inr w1 else Inl e)"

subsection \<open>TerminalFocusApp\<close>

definition ICON_NORMAL :: ustr where
  "ICON_NORMAL = [128421]"

definition ICON_UNSEEN :: ustr where
  "ICON_UNSEEN = [9889]"

definition label :: "session \<Rightarrow> ustr" where
  "label info =
     (let l = event_title info;
          l = (if event_msg info \<noteq> [] then l @ [32, 8212, 32] @ event_msg info else l)
      in if unseen info then [9679, 32] @ l else l)"

text \<open>
  \<open>_rebuild_menu\<close>. Deleting the old keys and then \<open>menu.clear()\<close> leave the menu
  empty, so the new menu is exactly the items added afterwards.
\<close>

definition rebuild_menu :: "world \<Rightarrow> world" where
  "rebuild_menu w =
     (let sessions = get_all (store w);
          n = length sessions;
          unseen_any = has_unseen (store w);
          t = (if unseen_any then ICON_UNSEEN @ str_nat n else ICON_NORMAL @ str_nat n);
          items =
            (if sessions = [] then [MenuItem (lit ''No active terminals'') No_callback]
             else map (\<lambda>(wid, info). MenuItem (label info) (Click wid)) sessions);
          keys =
            (if sessions = [] then [lit ''No active terminals'']
             else map (\<lambda>(wid, info). label info) sessions)
      in w\<lparr>app := (app w)\<lparr>title := Some t, session_keys := keys,
                            menu := items @ [Separator, MenuItem (lit ''Quit'') Quit]\<rparr>,
           log := log w @ [Rebuild_menu]\<rparr>)"

definition poll_for_updates :: "world \<Rightarrow> world" where
  "poll_for_updates w =
     (if dirty (app w) then rebuild_menu (w\<lparr>app := (app w)\<lparr>dirty := False\<rparr>\<rparr>) else w)"

text \<open>The handler made by \<open>_make_click_handler(window_id)\<close>.\<close>

definition click_handler :: "pylib \<Rightarrow> ustr \<Rightarrow> world \<Rightarrow> exn + world" where
  "click_handler lib window_id w =
     (case focus_terminal_window lib window_id w of
        Inl e \<Rightarrow> Inl e
      | Inr w1 \<Rightarrow> Inr (rebuild_menu (store_mark_all_seen w1)))"

section \<open>SessionStore as objects\<close>

text \<open>
  Python dicts are objects held by reference. To say what \<open>get_all\<close> shares with the
  store, the dicts are put in an object store: an address is an index into the list
  of objects allocated so far, and a new object goes to the end. The dict of sessions
  maps each window id to the address of that session's dict.
\<close>

type_synonym addr = nat

datatype obj = Session_dict session | Sessions_dict "(ustr \<times> addr) list"

type_synonym heap = "obj list"

definition new :: "obj \<Rightarrow> heap \<Rightarrow> addr \<times> heap" where
  "new ob h = (length h, h @ [ob])"

definition cell :: "heap \<Rightarrow> addr \<Rightarrow> obj option" where
  "cell h a = (if a < length h then Some (h ! a) else None)"

definition sessions_at :: "heap \<Rightarrow> addr \<Rightarrow> (ustr \<times> addr) list" where
  "sessions_at h r = (case cell h r of Some (Sessions_dict kvs) \<Rightarrow> kvs | _ \<Rightarrow> [])"

text \<open>\<open>self._sessions = {}\<close> in \<open>__init__\<close>: a new, empty dict of sessions.\<close>

definition init_obj :: "heap \<Rightarrow> addr \<times> heap" where
  "init_obj h = new (Sessions_dict []) h"

text \<open>
  \<open>self._sessions[window_id] = {...}\<close>: the dict literal is a new object, and the
  dict of sessions at \<open>r\<close> is changed in place.
\<close>

definition upsert_obj :: "addr \<Rightarrow> ustr \<Rightarrow> ustr \<Rightarrow> ustr \<Rightarrow> heap \<Rightarrow> heap" where
  "upsert_obj r window_id e_title e_msg h =
     (let (a, h1) =
            new (Session_dict \<lparr>event_title = e_title, event_msg = e_msg, unseen = True\<rparr>) h
      in h1[r := Sessions_dict (AList.update window_id a (sessions_at h r))])"

definition remove_obj :: "addr \<Rightarrow> ustr \<Rightarrow> heap \<Rightarrow> heap" where
  "remove_obj r window_id h = h[r := Sessions_dict (AList.delete window_id (sessions_at h r))]"

text \<open>\<open>session["unseen"] = False\<close> on the session dict at \<open>a\<close>.\<close>

definition set_seen :: "addr \<Rightarrow> heap \<Rightarrow> heap" where
  "set_seen a h =
     (case cell h a of
        Some (Session_dict s) \<Rightarrow> h[a := Session_dict (s\<lparr>unseen := False\<rparr>)]
      | _ \<Rightarrow> h)"

definition mark_all_seen_obj :: "addr \<Rightarrow> heap \<Rightarrow> heap" where
  "mark_all_seen_obj r h = fold set_seen (map snd (sessions_at h r)) h"

text \<open>
  \<open>{k: dict(v) for k, v in self._sessions.items()}\<close>: \<open>dict(v)\<close> is a new session
  dict with the fields of \<open>v\<close>, and the comprehension is a new dict of sessions.
  The result is the address of that dict.
\<close>

fun copy_sessions :: "(ustr \<times> addr) list \<Rightarrow> heap \<Rightarrow> (ustr \<times> addr) list \<times> heap" where
  "copy_sessions [] h = ([], h)"
| "copy_sessions ((k, a) # kvs) h =
     (case cell h a of
        Some (Session_dict s) \<Rightarrow>
          (let (a', h1) = new (Session_dict s) h;
               (rest, h2) = copy_sessions kvs h1
           in ((k, a') # rest, h2))
      | _ \<Rightarrow> copy_sessions kvs h)"

definition get_all_obj :: "addr \<Rightarrow> heap \<Rightarrow> addr \<times> heap" where
  "get_all_obj r h =
     (let (kvs', h1) = copy_sessions (sessions_at h r) h in new (Sessions_dict kvs') h1)"

text \<open>The calls a client can make on the store, and a sequence of them.\<close>

datatype store_op = Upsert ustr ustr ustr | Remove ustr | Mark_all_seen | Get_all

fun apply_obj :: "addr \<Rightarrow> store_op \<Rightarrow> heap \<Rightarrow> heap" where
  "apply_obj r (Upsert k t m) h = upsert_obj r k t m h"
| "apply_obj r (Remove k) h = remove_obj r k h"
| "apply_obj r Mark_all_seen h = mark_all_seen_obj r h"
| "apply_obj r Get_all h = snd (get_all_obj r h)"

fun apply_op :: "store_op \<Rightarrow> session_store \<Rightarrow> session_store" where
  "apply_op (Upsert k t m) st = upsert k t m st"
| "apply_op (Remove k) st = remove k st"
| "apply_op Mark_all_seen st = mark_all_seen st"
| "apply_op Get_all st = st"

text \<open>
  What a dict of sessions holds, read by value; its objects; and when it is well
  formed (a dict of sessions whose values are session dicts).
\<close>

fun deref :: "heap \<Rightarrow> (ustr \<times> addr) list \<Rightarrow> (ustr \<times> session) list" where
  "deref h [] = []"
| "deref h ((k, a) # kvs) =
     (case cell h a of
        Some (Session_dict s) \<Rightarrow> (k, s) # deref h kvs
      | _ \<Rightarrow> deref h kvs)"

definition contents :: "heap \<Rightarrow> addr \<Rightarrow> (ustr \<times> session) list" where
  "contents h r = deref h (sessions_at h r)"

definition footprint :: "heap \<Rightarrow> addr \<Rightarrow> addr set" where
  "footprint h r = insert r (snd ` set (sessions_at h r))"

definition is_session :: "heap \<Rightarrow> addr \<Rightarrow> bool" where
  "is_session h a = (case cell h a of Some (Session_dict s) \<Rightarrow> True | _ \<Rightarrow> False)"

definition dict_ok :: "heap \<Rightarrow> addr \<Rightarrow> bool" where
  "dict_ok h r =
     ((case cell h r of Some (Sessions_dict kvs) \<Rightarrow> True | _ \<Rightarrow> False)
      \<and> list_all (is_session h) (map snd (sessions_at h r)))"

text \<open>
  \<open>h'\<close> comes from \<open>h\<close> by changing only objects of \<open>S\<close> and allocating new ones:
  what a client holding a structure with footprint \<open>S\<close> can do to the object store
  through it.
\<close>

definition changes_only :: "addr set \<Rightarrow> heap \<Rightarrow> heap \<Rightarrow> bool" where
  "changes_only S h h' =
     (length h \<le> length h' \<and> (\<forall>a < length h. a \<notin> S \<longrightarrow> h' ! a = h ! a))"

section \<open>Names for the parts of a request\<close>

text \<open>
  \<open>str(data.get(key, ""))\<close> for a decoded record, before and after \<open>.strip()\<close>
  (lines 93 to 95 of the source).
\<close>

definition raw_field :: "pylib \<Rightarrow> (ustr \<times> json) list \<Rightarrow> ustr \<Rightarrow> ustr" where
  "raw_field lib kvs key =
     py_str (repr lib) (case map_of kvs key of None \<Rightarrow> JString [] | Some v \<Rightarrow> v)"

definition field :: "pylib \<Rightarrow> (ustr \<times> json) list \<Rightarrow> ustr \<Rightarrow> ustr" where
  "field lib kvs key = strip (raw_field lib kvs key)"

text \<open>A non-empty string of the decimal digits \<open>0\<close> to \<open>9\<close> only.\<close>

definition ascii_digits :: "ustr \<Rightarrow> bool" where
  "ascii_digits s = (s \<noteq> [] \<and> list_all (\<lambda>c. 48 \<le> c \<and> c \<le> 57) s)"

text \<open>
  A request that passes every check of \<open>do_POST\<close>: it decoded to a record, id and
  title are not empty after stripping, and \<open>isdigit\<close> holds of the id.
\<close>

definition valid_request :: "pylib \<Rightarrow> exn + json \<Rightarrow> bool" where
  "valid_request lib loaded =
     (case loaded of
        Inr (JObject kvs) \<Rightarrow>
          field lib kvs (lit ''window_id'') \<noteq> []
          \<and> field lib kvs (lit ''event_title'') \<noteq> []
          \<and> isdigit (field lib kvs (lit ''window_id''))
      | _ \<Rightarrow> False)"

text \<open>Lines 114 to 115, and the dispatch of lines 106 to 115.\<close>

definition notify :: "world \<Rightarrow> world" where
  "notify w = (if app_ref_set w then schedule_refresh w else w)"

definition dispatch :: "pylib \<Rightarrow> ustr \<Rightarrow> ustr \<Rightarrow> ustr \<Rightarrow> world \<Rightarrow> world" where
  "dispatch lib window_id e_title e_msg w =
     notify
       (if lower (unicode_lower lib) e_title = lit ''terminate'' then
          respond 200 [(lit ''status'', lit ''removed''), (lit ''window_id'', window_id)]
            (store_remove window_id w)
        else
          respond 200 [(lit ''status'', lit ''registered''), (lit ''window_id'', window_id)]
            (store_upsert window_id e_title e_msg w))"

text \<open>
  Two instances of the library, to run the model on requests whose fields are
  strings or integers and whose title is ASCII (\<open>unicode_lower\<close> and \<open>repr\<close> are
  never called on those): in one the external process always returns, in the
  other it always times out. And the state \<open>main\<close> starts the server in: an empty
  store, and a handler that holds the app.
\<close>

definition lib_ok :: pylib where
  "lib_ok = \<lparr>unicode_lower = (\<lambda>s. s), repr = (\<lambda>v. lit ''?''),
             subprocess_run = (\<lambda>args t. Inr ())\<rparr>"

definition lib_timeout :: pylib where
  "lib_timeout = \<lparr>unicode_lower = (\<lambda>s. s), repr = (\<lambda>v. lit ''?''),
                  subprocess_run = (\<lambda>args t. Inl (TimeoutExpired (lit ''timed out'')))\<rparr>"

definition w0 :: world where
  "w0 = \<lparr>store = empty_store,
         app = \<lparr>dirty = False, title = None, session_keys = [], menu = []\<rparr>,
         app_ref_set = True, log = []\<rparr>"

text \<open>
  A client that has closed the connection: every write raises \<open>BrokenPipeError\<close>.
  And one whose connection breaks during the answer to the dispatch only.
\<close>

definition send_closed :: "nat \<Rightarrow> (ustr \<times> ustr) list \<Rightarrow> exn + unit" where
  "send_closed status_code body = Inl (OtherException (lit ''[Errno 32] Broken pipe''))"

definition send_200_fails :: "nat \<Rightarrow> (ustr \<times> ustr) list \<Rightarrow> exn + unit" where
  "send_200_fails status_code body =
     (if status_code = 200 then Inl (OtherException (lit ''[Errno 32] Broken pipe''))
      else Inr ())"

text \<open>
  Requests for the checks: no title and an id of letters; a title and an id of
  letters; an integer id with the title "Terminate"; an integer id with the title
  "build".
\<close>

definition no_title_request :: "(ustr \<times> json) list" where
  "no_title_request = [(lit ''window_id'', JString (lit ''abc''))]"

definition letters_request :: "(ustr \<times> json) list" where
  "letters_request =
     [(lit ''window_id'', JString (lit ''abc'')), (lit ''event_title'', JString (lit ''build''))]"

definition terminate_request :: "(ustr \<times> json) list" where
  "terminate_request =
     [(lit ''window_id'', JInt 12345), (lit ''event_title'', JString (lit ''Terminate''))]"

definition build_request :: "(ustr \<times> json) list" where
  "build_request =
     [(lit ''window_id'', JInt 12345), (lit ''event_title'', JString (lit ''build''))]"

text \<open>Two requests that differ only in whitespace around the id and the message.\<close>

definition padded_request :: "(ustr \<times> json) list" where
  "padded_request =
     [(lit ''window_id'', JString (lit '' 12 '')),
      (lit ''event_title'', JString (lit ''build'')),
      (lit ''event_msg'', JString ([9] @ lit ''hi'' @ [160, 10]))]"

definition plain_request :: "(ustr \<times> json) list" where
  "plain_request =
     [(lit ''window_id'', JString (lit ''12'')),
      (lit ''event_title'', JString (lit ''build'')),
      (lit ''event_msg'', JString (lit ''hi''))]"

text \<open>
  A request whose id is the one character U+00B2 (superscript two), and the state
  the server is in after it.
\<close>

definition superscript_request :: "(ustr \<times> json) list" where
  "superscript_request =
     [(lit ''window_id'', JString [178]), (lit ''event_title'', JString (lit ''build''))]"

definition superscript_world :: world where
  "superscript_world =
     w0\<lparr>store := [([178], \<lparr>event_title = lit ''build'', event_msg = [], unseen = True\<rparr>)],
        app := (app w0)\<lparr>dirty := True\<rparr>,
        log := [Store_upsert [178] (lit ''build'') [],
                Respond 200 [(lit ''status'', lit ''registered''), (lit ''window_id'', [178])],
                Dirty_set]\<rparr>"

section \<open>Names for reasoning about the object store\<close>

text \<open>The effect of \<open>session["unseen"] = False\<close> on what an address holds.\<close>

definition seen_obj :: "obj option \<Rightarrow> obj option" where
  "seen_obj x =
     (case x of Some (Session_dict s) \<Rightarrow> Some (Session_dict (s\<lparr>unseen := False\<rparr>)) | _ \<Rightarrow> x)"

text \<open>
  One call on the store at \<open>r\<close> took the object store from \<open>h\<close> to \<open>h'\<close>: the dict
  of sessions is still well formed, nothing was freed, every object outside the
  store's footprint is as it was, the footprint grew by new objects only, and the
  contents changed as \<open>f\<close>, the same call on the store of values, says.
\<close>

definition step_ok ::
  "addr \<Rightarrow> heap \<Rightarrow> heap \<Rightarrow> ((ustr \<times> session) list \<Rightarrow> (ustr \<times> session) list) \<Rightarrow> bool" where
  "step_ok r h h' f =
     (dict_ok h' r \<and> length h \<le> length h'
      \<and> (\<forall>a < length h. a \<notin> footprint h r \<longrightarrow> cell h' a = cell h a)
      \<and> footprint h' r \<subseteq> footprint h r \<union> {length h ..< length h'}
      \<and> contents h' r = f (contents h r))"

text \<open>
  An object store with one session, the store after \<open>get_all()\<close>, and that store
  after the client wrote \<open>snapshot["123"]["event_msg"] = "MODIFIED"\<close>.
\<close>

definition heap0 :: heap where
  "heap0 =
     [Sessions_dict [(lit ''123'', 1)],
      Session_dict \<lparr>event_title = lit ''build'', event_msg = lit ''started'', unseen = True\<rparr>]"

definition heap1 :: heap where
  "heap1 = heap0 @
     [Session_dict \<lparr>event_title = lit ''build'', event_msg = lit ''started'', unseen = True\<rparr>,
      Sessions_dict [(lit ''123'', 2)]]"

definition heap2 :: heap where
  "heap2 = heap1
     [2 := Session_dict \<lparr>event_title = lit ''build'', event_msg = lit ''MODIFIED'',
                         unseen = True\<rparr>]"

section \<open>Properties of SessionStore\<close>

lemma get_all_id: "get_all st = st"
  by (simp add: get_all_def)

lemma length_update:
  "length (AList.update k v al) = (if k \<in> fst ` set al then length al else Suc (length al))"
  by (induction al) auto

lemma map_of_upsert:
  "map_of (upsert k t m st) k' =
     (if k' = k then Some \<lparr>event_title = t, event_msg = m, unseen = True\<rparr> else map_of st k')"
  by (simp add: upsert_def update_conv')

lemma count_upsert:
  "count (upsert k t m st) = (if k \<in> fst ` set st then count st else Suc (count st))"
  by (simp add: upsert_def count_def length_update)

lemma keys_upsert: "fst ` set (upsert k t m st) = insert k (fst ` set st)"
  by (simp add: upsert_def dom_update)

lemma distinct_upsert: "distinct (map fst st) \<Longrightarrow> distinct (map fst (upsert k t m st))"
  by (simp add: upsert_def distinct_update)

lemma distinct_remove: "distinct (map fst st) \<Longrightarrow> distinct (map fst (remove k st))"
  by (simp add: remove_def distinct_delete)

lemma remove_absent: "k \<notin> fst ` set st \<Longrightarrow> remove k st = st"
  by (simp add: remove_def)

lemma keys_mark_all_seen: "map fst (mark_all_seen st) = map fst st"
  by (induction st) (auto simp: mark_all_seen_def)

lemma map_of_mark_all_seen:
  "map_of (mark_all_seen st) k = map_option (\<lambda>s. s\<lparr>unseen := False\<rparr>) (map_of st k)"
  by (induction st) (auto simp: mark_all_seen_def)

lemma seen_mark_all_seen: "(k, s) \<in> set (mark_all_seen st) \<Longrightarrow> \<not> unseen s"
  by (auto simp: mark_all_seen_def)

lemma has_unseen_mark_all_seen: "\<not> has_unseen (mark_all_seen st)"
  by (induction st) (auto simp: has_unseen_def mark_all_seen_def)

lemma has_unseen_upsert: "has_unseen (upsert k t m st)"
  unfolding upsert_def has_unseen_def
  by (induction st) auto

lemma upsert_others:
  "k' \<noteq> k \<Longrightarrow> (k', s) \<in> set (upsert k t m st) \<longleftrightarrow> (k', s) \<in> set st"
  unfolding upsert_def by (induction st) auto

text \<open>
  C5. After \<open>upsert(id, title, message)\<close>, \<open>get_all()\<close> has for \<open>id\<close> the entry with
  exactly that title and message and \<open>unseen = True\<close>. An upsert on an id that is
  already present leaves \<open>count()\<close> as it was, and after a repeated upsert the entry
  holds the latest title and message.
\<close>

theorem upsert_then_get_all:
  "map_of (get_all (upsert k t m st)) k
     = Some \<lparr>event_title = t, event_msg = m, unseen = True\<rparr>
   \<and> (k \<in> fst ` set st \<longrightarrow> count (upsert k t m st) = count st)
   \<and> count (upsert k t' m' (upsert k t m st)) = count (upsert k t m st)
   \<and> map_of (get_all (upsert k t' m' (upsert k t m st))) k
     = Some \<lparr>event_title = t', event_msg = m', unseen = True\<rparr>"
  by (simp add: get_all_id map_of_upsert count_upsert keys_upsert)

theorem upsert_then_get_all_witness:
  "[49, 50, 51] \<in> fst ` set [([49, 50, 51], \<lparr>event_title = [98], event_msg = [], unseen = False\<rparr>)]
   \<and> count (upsert [49, 50, 51] [99] [100]
        [([49, 50, 51], \<lparr>event_title = [98], event_msg = [], unseen = False\<rparr>)]) = 1
   \<and> map_of (get_all (upsert [49, 50, 51] [99] [100]
        [([49, 50, 51], \<lparr>event_title = [98], event_msg = [], unseen = False\<rparr>)])) [49, 50, 51]
      = Some \<lparr>event_title = [99], event_msg = [100], unseen = True\<rparr>"
  using upsert_then_get_all
    [of "[49, 50, 51]" "[99]" "[100]"
        "[([49, 50, 51], \<lparr>event_title = [98], event_msg = [], unseen = False\<rparr>)]"]
  by (simp add: count_def)

text \<open>
  C6. \<open>mark_all_seen()\<close> clears the flag of every stored session and changes nothing
  else, so \<open>has_unseen()\<close> is false right after it. An upsert on any store makes
  \<open>has_unseen()\<close> true, and the entries of every other id are the ones the store had;
  after \<open>mark_all_seen()\<close> those are all seen.
\<close>

theorem mark_all_seen_then_upsert:
  "(\<forall>(k', s) \<in> set (mark_all_seen st). \<not> unseen s)
   \<and> map_of (mark_all_seen st) k' = map_option (\<lambda>s. s\<lparr>unseen := False\<rparr>) (map_of st k')
   \<and> map fst (mark_all_seen st) = map fst st
   \<and> \<not> has_unseen (mark_all_seen st)
   \<and> has_unseen (upsert k t m st')
   \<and> (\<forall>j s. j \<noteq> k \<longrightarrow> ((j, s) \<in> set (upsert k t m st') \<longleftrightarrow> (j, s) \<in> set st'))
   \<and> (\<forall>(j, s) \<in> set (upsert k t m (mark_all_seen st)). j \<noteq> k \<longrightarrow> \<not> unseen s)"
proof -
  have others: "\<forall>j s. j \<noteq> k \<longrightarrow> ((j, s) \<in> set (upsert k t m st') \<longleftrightarrow> (j, s) \<in> set st')"
    by (simp add: upsert_others)
  have seen: "\<forall>(j, s) \<in> set (upsert k t m (mark_all_seen st)). j \<noteq> k \<longrightarrow> \<not> unseen s"
    using seen_mark_all_seen by (auto simp: upsert_others)
  have swept: "\<forall>(k', s) \<in> set (mark_all_seen st). \<not> unseen s"
    using seen_mark_all_seen by auto
  show ?thesis
    using others seen swept
    by (simp add: map_of_mark_all_seen keys_mark_all_seen has_unseen_mark_all_seen
        has_unseen_upsert)
qed

theorem mark_all_seen_then_upsert_witness:
  "\<not> has_unseen (mark_all_seen
       [([49], \<lparr>event_title = [97], event_msg = [], unseen = True\<rparr>),
        ([50], \<lparr>event_title = [98], event_msg = [], unseen = True\<rparr>)])
   \<and> has_unseen (upsert [49] [99] [] (mark_all_seen
       [([49], \<lparr>event_title = [97], event_msg = [], unseen = True\<rparr>),
        ([50], \<lparr>event_title = [98], event_msg = [], unseen = True\<rparr>)]))
   \<and> ([50], \<lparr>event_title = [98], event_msg = [], unseen = False\<rparr>)
       \<in> set (upsert [49] [99] [] (mark_all_seen
       [([49], \<lparr>event_title = [97], event_msg = [], unseen = True\<rparr>),
        ([50], \<lparr>event_title = [98], event_msg = [], unseen = True\<rparr>)]))
   \<and> ([49], \<lparr>event_title = [99], event_msg = [], unseen = True\<rparr>)
       \<in> set (upsert [49] [99] [] (mark_all_seen
       [([49], \<lparr>event_title = [97], event_msg = [], unseen = True\<rparr>),
        ([50], \<lparr>event_title = [98], event_msg = [], unseen = True\<rparr>)]))"
  using mark_all_seen_then_upsert
    [of "[([49], \<lparr>event_title = [97], event_msg = [], unseen = True\<rparr>),
          ([50], \<lparr>event_title = [98], event_msg = [], unseen = True\<rparr>)]"
        "[50]" "[49]" "[99]" "[]"
        "mark_all_seen
          [([49], \<lparr>event_title = [97], event_msg = [], unseen = True\<rparr>),
           ([50], \<lparr>event_title = [98], event_msg = [], unseen = True\<rparr>)]"]
  by (simp add: mark_all_seen_def upsert_def)

section \<open>Properties of the string functions\<close>

lemma isdigit_cp_ascii: "48 \<le> c \<Longrightarrow> c \<le> 57 \<Longrightarrow> isdigit_cp c"
  by (simp add: isdigit_cp_def in_ranges_def digit_ranges_def)

lemma ascii_digits_isdigit: "ascii_digits s \<Longrightarrow> isdigit s"
  by (auto simp: ascii_digits_def isdigit_def list_all_iff isdigit_cp_ascii)

lemma dropWhile_all: "list_all P a \<Longrightarrow> dropWhile P (a @ s) = dropWhile P s"
  by (induction a) auto

lemma strip_surrounded:
  assumes "list_all isspace_cp a" "list_all isspace_cp b"
  shows "strip (a @ s @ b) = strip s"
proof -
  have 1: "dropWhile isspace_cp (a @ s @ b) = dropWhile isspace_cp (s @ b)"
    using assms(1) by (rule dropWhile_all)
  have 2: "dropWhile isspace_cp (rev (dropWhile isspace_cp (s @ b)))
             = dropWhile isspace_cp (rev (dropWhile isspace_cp s))"
  proof (cases "list_all isspace_cp s")
    case True
    then have "list_all isspace_cp (s @ b)" using assms(2) by simp
    then have sb: "dropWhile isspace_cp (s @ b) = []"
      by (simp only: dropWhile_eq_Nil_conv list_all_iff)
    have s: "dropWhile isspace_cp s = []"
      using True by (simp only: dropWhile_eq_Nil_conv list_all_iff)
    show ?thesis by (simp only: sb s)
  next
    case False
    then obtain x where "x \<in> set s" "\<not> isspace_cp x"
      by (auto simp: list_all_iff)
    then have "dropWhile isspace_cp (s @ b) = dropWhile isspace_cp s @ b"
      by (rule dropWhile_append1)
    moreover have "list_all isspace_cp (rev b)" using assms(2) by (simp add: list_all_iff)
    ultimately show ?thesis by (simp add: dropWhile_all)
  qed
  show ?thesis by (simp only: strip_def 1 2)
qed

lemma strip_decomp:
  "\<exists>a b. s = a @ strip s @ b \<and> list_all isspace_cp a \<and> list_all isspace_cp b"
proof -
  let ?t = "dropWhile isspace_cp s"
  have s: "s = takeWhile isspace_cp s @ ?t" by simp
  have t: "rev ?t = takeWhile isspace_cp (rev ?t) @ dropWhile isspace_cp (rev ?t)" by simp
  then have "?t = strip s @ rev (takeWhile isspace_cp (rev ?t))"
    by (metis rev_append rev_rev_ident strip_def)
  then have "s = takeWhile isspace_cp s @ strip s @ rev (takeWhile isspace_cp (rev ?t))"
    using s by metis
  moreover have "list_all isspace_cp (takeWhile isspace_cp s)"
    by (simp add: list_all_iff) (meson set_takeWhileD)
  moreover have "list_all isspace_cp (rev (takeWhile isspace_cp (rev ?t)))"
    by (simp add: list_all_iff) (meson set_takeWhileD)
  ultimately show ?thesis by blast
qed

lemma strip_ends:
  "strip s \<noteq> [] \<Longrightarrow> \<not> isspace_cp (hd (strip s)) \<and> \<not> isspace_cp (last (strip s))"
proof -
  assume ne: "strip s \<noteq> []"
  let ?t = "dropWhile isspace_cp s"
  let ?u = "dropWhile isspace_cp (rev ?t)"
  have u: "?u \<noteq> []" using ne by (simp add: strip_def)
  then have "\<not> isspace_cp (hd ?u)" by (rule hd_dropWhile)
  then have l: "\<not> isspace_cp (last (strip s))"
    using u by (simp add: strip_def last_rev)
  have "?t \<noteq> []"
  proof
    assume "?t = []"
    then have "?u = []" by (simp only: rev.simps(1) dropWhile.simps(1))
    with u show False by contradiction
  qed
  then have ht: "\<not> isspace_cp (hd ?t)" by (rule hd_dropWhile)
  have "rev ?t = takeWhile isspace_cp (rev ?t) @ ?u" by simp
  then have "?t = strip s @ rev (takeWhile isspace_cp (rev ?t))"
    by (metis rev_append rev_rev_ident strip_def)
  then have "hd ?t = hd (strip s)" using ne by (metis hd_append2)
  then show ?thesis using ht l by simp
qed

section \<open>Properties of the request handler\<close>

lemma do_POST_record:
  "do_POST lib (Inr (JObject kvs)) w =
     Inr (if field lib kvs (lit ''window_id'') = [] \<or> field lib kvs (lit ''event_title'') = [] then
            respond 400 [(lit ''error'', lit ''window_id and event_title are required'')] w
          else if \<not> isdigit (field lib kvs (lit ''window_id'')) then
            respond 400 [(lit ''error'', lit ''window_id must be a numeric value'')] w
          else dispatch lib (field lib kvs (lit ''window_id'')) (field lib kvs (lit ''event_title''))
                 (field lib kvs (lit ''event_msg'')) w)"
  by (simp add: do_POST_def do_POST_io_def do_POST_try_io_def respond_io_def dict_get_def
      field_def raw_field_def dispatch_def notify_def Let_def)

lemma do_POST_not_record:
  "(\<forall>kvs. data \<noteq> JObject kvs) \<Longrightarrow>
   do_POST lib (Inr data) w =
     Inr (respond 500
            [(lit ''error'', [39] @ type_name data @ [39] @ lit '' object has no attribute ''
                 @ [39] @ lit ''get'' @ [39])] w)"
  by (cases data)
    (simp_all add: do_POST_def do_POST_io_def do_POST_try_io_def respond_io_def dict_get_def)

lemma do_POST_raised:
  "do_POST lib (Inl e) w =
     (if is_JSONDecodeError e then Inr (respond 400 [(lit ''error'', lit ''Invalid JSON'')] w)
      else if is_Exception e then Inr (respond 500 [(lit ''error'', str_exn e)] w)
      else Inl e)"
  by (simp add: do_POST_def do_POST_io_def do_POST_try_io_def respond_io_def)

lemma do_POST_valid:
  assumes "valid_request lib (Inr (JObject kvs))"
  shows "do_POST lib (Inr (JObject kvs)) w =
           Inr (dispatch lib (field lib kvs (lit ''window_id'')) (field lib kvs (lit ''event_title''))
                  (field lib kvs (lit ''event_msg'')) w)"
  using assms by (simp add: do_POST_record valid_request_def)

lemma dispatch_remove:
  "lower (unicode_lower lib) t = lit ''terminate'' \<Longrightarrow>
   store (dispatch lib k t m w) = remove k (store w)
   \<and> app_ref_set (dispatch lib k t m w) = app_ref_set w
   \<and> log (dispatch lib k t m w) =
       log w @ [Store_remove k,
                Respond 200 [(lit ''status'', lit ''removed''), (lit ''window_id'', k)]]
             @ (if app_ref_set w then [Dirty_set] else [])"
  by (simp add: dispatch_def notify_def respond_def store_remove_def schedule_refresh_def)

lemma dispatch_upsert:
  "lower (unicode_lower lib) t \<noteq> lit ''terminate'' \<Longrightarrow>
   store (dispatch lib k t m w) = upsert k t m (store w)
   \<and> app_ref_set (dispatch lib k t m w) = app_ref_set w
   \<and> log (dispatch lib k t m w) =
       log w @ [Store_upsert k t m,
                Respond 200 [(lit ''status'', lit ''registered''), (lit ''window_id'', k)]]
             @ (if app_ref_set w then [Dirty_set] else [])"
  by (simp add: dispatch_def notify_def respond_def store_upsert_def schedule_refresh_def)

lemma dispatch_app:
  "app (dispatch lib k t m w) = (if app_ref_set w then (app w)\<lparr>dirty := True\<rparr> else app w)"
  by (simp add: dispatch_def notify_def respond_def store_upsert_def store_remove_def
      schedule_refresh_def)

lemma field_absent: "map_of kvs key = None \<Longrightarrow> field lib kvs key = []"
  by (simp add: field_def raw_field_def py_str_def strip_def)

lemmas eval_request = lit_def strip_def isdigit_def isdigit_cp_def isspace_cp_def in_ranges_def
  digit_ranges_def space_ranges_def lower_def ascii_lower_cp_def field_def raw_field_def
  py_str_def str_int_def str_nat.simps valid_request_def ascii_digits_def

lemmas eval_world = respond_def store_upsert_def store_remove_def schedule_refresh_def
  upsert_def remove_def w0_def lib_ok_def empty_store_def dispatch_def notify_def

text \<open>
  C2. A body that decodes to a JSON array is not a record. \<open>data.get\<close> raises
  \<open>AttributeError\<close>, which only \<open>except Exception\<close> catches: the answer is 500 with
  the text of the exception, not 400.
\<close>

theorem array_body_is_500:
  "do_POST lib (Inr (JArray [JInt 1])) w
   = Inr (w\<lparr>log := log w @
            [Respond 500 [(lit ''error'',
               [39] @ lit ''list'' @ [39] @ lit '' object has no attribute ''
               @ [39] @ lit ''get'' @ [39])]]\<rparr>)"
  by (simp add: do_POST_not_record type_name_def respond_def)

text \<open>
  C3. The checks of \<open>do_POST\<close> in their order. A body that \<open>json.loads\<close> rejects
  is answered 400 "Invalid JSON" whatever else holds. A record with an empty id or
  title is answered 400 "required", also when its id is not numeric. A record with
  both, whose id fails \<open>isdigit\<close>, is answered 400 "numeric". Every request that
  does not pass all checks leaves the store and the app as they were and adds one
  response, whose status is not 200 (or, for an exception that no handler catches,
  adds nothing).
\<close>

theorem validation_order:
  "do_POST lib (Inl (JSONDecodeError m)) w
     = Inr (respond 400 [(lit ''error'', lit ''Invalid JSON'')] w)
   \<and> (field lib kvs (lit ''window_id'') = [] \<or> field lib kvs (lit ''event_title'') = [] \<longrightarrow>
        do_POST lib (Inr (JObject kvs)) w
          = Inr (respond 400
                   [(lit ''error'', lit ''window_id and event_title are required'')] w))
   \<and> (field lib kvs (lit ''window_id'') \<noteq> [] \<and> field lib kvs (lit ''event_title'') \<noteq> []
        \<and> \<not> isdigit (field lib kvs (lit ''window_id'')) \<longrightarrow>
        do_POST lib (Inr (JObject kvs)) w
          = Inr (respond 400 [(lit ''error'', lit ''window_id must be a numeric value'')] w))
   \<and> (\<not> valid_request lib loaded \<longrightarrow>
        (case do_POST lib loaded w of
           Inl e \<Rightarrow> loaded = Inl e
         | Inr w' \<Rightarrow>
             store w' = store w \<and> app w' = app w
             \<and> (\<exists>c b. c \<noteq> 200 \<and> log w' = log w @ [Respond c b])))"
proof -
  have 4: "\<not> valid_request lib loaded \<Longrightarrow>
        (case do_POST lib loaded w of
           Inl e \<Rightarrow> loaded = Inl e
         | Inr w' \<Rightarrow>
             store w' = store w \<and> app w' = app w
             \<and> (\<exists>c b. c \<noteq> 200 \<and> log w' = log w @ [Respond c b]))"
  proof (cases loaded)
    case (Inl e)
    then show ?thesis by (simp add: do_POST_raised respond_def)
  next
    case (Inr data)
    assume nv: "\<not> valid_request lib loaded"
    show ?thesis
    proof (cases "\<exists>kvs. data = JObject kvs")
      case True
      then obtain kvs' where d: "data = JObject kvs'" by blast
      show ?thesis using nv Inr d
        by (auto simp: do_POST_record valid_request_def respond_def)
    next
      case False
      then show ?thesis using Inr by (simp add: do_POST_not_record respond_def)
    qed
  qed
  show ?thesis using 4 by (simp add: do_POST_raised do_POST_record)
qed

theorem validation_order_witness:
  "field lib_ok no_title_request (lit ''event_title'') = []
   \<and> \<not> isdigit (field lib_ok no_title_request (lit ''window_id''))
   \<and> do_POST lib_ok (Inr (JObject no_title_request)) w0
     = Inr (respond 400
              [(lit ''error'', lit ''window_id and event_title are required'')] w0)
   \<and> field lib_ok letters_request (lit ''window_id'') = lit ''abc''
   \<and> field lib_ok letters_request (lit ''event_title'') = lit ''build''
   \<and> \<not> isdigit (lit ''abc'')
   \<and> do_POST lib_ok (Inr (JObject letters_request)) w0
     = Inr (respond 400 [(lit ''error'', lit ''window_id must be a numeric value'')] w0)
   \<and> \<not> valid_request lib_ok (Inr (JObject letters_request))
   \<and> store (respond 400 [(lit ''error'', lit ''window_id must be a numeric value'')] w0)
     = store w0"
proof -
  have t: "field lib_ok no_title_request (lit ''event_title'') = []"
    by (simp add: no_title_request_def eval_request)
  have n: "\<not> isdigit (field lib_ok no_title_request (lit ''window_id''))"
    by (simp add: no_title_request_def eval_request)
  have r1: "do_POST lib_ok (Inr (JObject no_title_request)) w0
     = Inr (respond 400
              [(lit ''error'', lit ''window_id and event_title are required'')] w0)"
    using validation_order [of lib_ok "[]" w0 no_title_request "Inl (JSONDecodeError [])"] t
    by blast
  have i: "field lib_ok letters_request (lit ''window_id'') = lit ''abc''"
    and e: "field lib_ok letters_request (lit ''event_title'') = lit ''build''"
    by (simp_all add: letters_request_def eval_request)
  have d: "\<not> isdigit (lit ''abc'')" by (simp add: eval_request)
  have ne: "lit ''abc'' \<noteq> []" "lit ''build'' \<noteq> []" by (simp_all add: lit_def)
  have r2: "do_POST lib_ok (Inr (JObject letters_request)) w0
     = Inr (respond 400 [(lit ''error'', lit ''window_id must be a numeric value'')] w0)"
    using validation_order [of lib_ok "[]" w0 letters_request "Inl (JSONDecodeError [])"]
      i e d ne by simp
  have nv: "\<not> valid_request lib_ok (Inr (JObject letters_request))"
    using i d by (simp add: valid_request_def)
  have s: "store (respond 400 [(lit ''error'', lit ''window_id must be a numeric value'')] w0)
     = store w0"
    using validation_order [of lib_ok "[]" w0 letters_request "Inr (JObject letters_request)"]
      nv r2 by simp
  show ?thesis using t n r1 i e d r2 nv s by (intro conjI) assumption+
qed

text \<open>
  C4. A record whose title is not empty after stripping and whose stripped id is a
  non-empty string of the digits 0 to 9 is dispatched. If the lower-cased title
  is "terminate", \<open>remove(id)\<close> is called and the answer is 200 with status
  "removed" and the id; removing an id the store does not hold changes nothing.
  Otherwise \<open>upsert(id, title, msg)\<close> is called and the answer is 200 with status
  "registered" and the id; an absent \<open>event_msg\<close> is the empty message.
\<close>

theorem valid_request_dispatch:
  assumes "field lib kvs (lit ''event_title'') \<noteq> []"
    and "ascii_digits (field lib kvs (lit ''window_id''))"
  shows "\<exists>w'. do_POST lib (Inr (JObject kvs)) w = Inr w'
     \<and> (if lower (unicode_lower lib) (field lib kvs (lit ''event_title'')) = lit ''terminate''
        then store w' = remove (field lib kvs (lit ''window_id'')) (store w)
           \<and> log w' = log w
               @ [Store_remove (field lib kvs (lit ''window_id'')),
                  Respond 200 [(lit ''status'', lit ''removed''),
                               (lit ''window_id'', field lib kvs (lit ''window_id''))]]
               @ (if app_ref_set w then [Dirty_set] else [])
        else store w' = upsert (field lib kvs (lit ''window_id''))
                          (field lib kvs (lit ''event_title''))
                          (field lib kvs (lit ''event_msg'')) (store w)
           \<and> log w' = log w
               @ [Store_upsert (field lib kvs (lit ''window_id''))
                    (field lib kvs (lit ''event_title'')) (field lib kvs (lit ''event_msg'')),
                  Respond 200 [(lit ''status'', lit ''registered''),
                               (lit ''window_id'', field lib kvs (lit ''window_id''))]]
               @ (if app_ref_set w then [Dirty_set] else []))
     \<and> (field lib kvs (lit ''window_id'') \<notin> fst ` set (store w) \<longrightarrow>
          remove (field lib kvs (lit ''window_id'')) (store w) = store w)
     \<and> (map_of kvs (lit ''event_msg'') = None \<longrightarrow> field lib kvs (lit ''event_msg'') = [])"
proof -
  have "isdigit (field lib kvs (lit ''window_id''))"
    using assms(2) by (rule ascii_digits_isdigit)
  moreover have "field lib kvs (lit ''window_id'') \<noteq> []"
    using assms(2) by (simp add: ascii_digits_def)
  ultimately have "valid_request lib (Inr (JObject kvs))"
    using assms(1) by (simp add: valid_request_def)
  then have "do_POST lib (Inr (JObject kvs)) w =
           Inr (dispatch lib (field lib kvs (lit ''window_id'')) (field lib kvs (lit ''event_title''))
                  (field lib kvs (lit ''event_msg'')) w)"
    by (rule do_POST_valid)
  then show ?thesis
    by (simp add: dispatch_remove dispatch_upsert remove_absent field_absent)
qed

theorem valid_request_dispatch_witness:
  "field lib_ok terminate_request (lit ''event_title'') = lit ''Terminate''
   \<and> ascii_digits (field lib_ok terminate_request (lit ''window_id''))
   \<and> lower (unicode_lower lib_ok) (lit ''Terminate'') = lit ''terminate''
   \<and> do_POST lib_ok (Inr (JObject terminate_request)) w0
     = Inr (w0\<lparr>app := (app w0)\<lparr>dirty := True\<rparr>,
               log := [Store_remove (lit ''12345''),
                       Respond 200 [(lit ''status'', lit ''removed''),
                                    (lit ''window_id'', lit ''12345'')],
                       Dirty_set]\<rparr>)
   \<and> field lib_ok build_request (lit ''event_title'') = lit ''build''
   \<and> ascii_digits (field lib_ok build_request (lit ''window_id''))
   \<and> do_POST lib_ok (Inr (JObject build_request)) w0
     = Inr (w0\<lparr>store := [(lit ''12345'',
                             \<lparr>event_title = lit ''build'', event_msg = [], unseen = True\<rparr>)],
               app := (app w0)\<lparr>dirty := True\<rparr>,
               log := [Store_upsert (lit ''12345'') (lit ''build'') [],
                       Respond 200 [(lit ''status'', lit ''registered''),
                                    (lit ''window_id'', lit ''12345'')],
                       Dirty_set]\<rparr>)"
proof -
  have t1: "field lib_ok terminate_request (lit ''event_title'') = lit ''Terminate''"
    and d1: "ascii_digits (field lib_ok terminate_request (lit ''window_id''))"
    by (simp_all add: terminate_request_def eval_request)
  have lo: "lower (unicode_lower lib_ok) (lit ''Terminate'') = lit ''terminate''"
    by (simp add: eval_request)
  have t2: "field lib_ok build_request (lit ''event_title'') = lit ''build''"
    and d2: "ascii_digits (field lib_ok build_request (lit ''window_id''))"
    by (simp_all add: build_request_def eval_request)
  have r1: "do_POST lib_ok (Inr (JObject terminate_request)) w0
     = Inr (w0\<lparr>app := (app w0)\<lparr>dirty := True\<rparr>,
               log := [Store_remove (lit ''12345''),
                       Respond 200 [(lit ''status'', lit ''removed''),
                                    (lit ''window_id'', lit ''12345'')],
                       Dirty_set]\<rparr>)"
    using valid_request_dispatch [of lib_ok terminate_request w0] d1
    by (simp add: do_POST_record terminate_request_def eval_request eval_world)
  have r2: "do_POST lib_ok (Inr (JObject build_request)) w0
     = Inr (w0\<lparr>store := [(lit ''12345'',
                             \<lparr>event_title = lit ''build'', event_msg = [], unseen = True\<rparr>)],
               app := (app w0)\<lparr>dirty := True\<rparr>,
               log := [Store_upsert (lit ''12345'') (lit ''build'') [],
                       Respond 200 [(lit ''status'', lit ''registered''),
                                    (lit ''window_id'', lit ''12345'')],
                       Dirty_set]\<rparr>)"
    using valid_request_dispatch [of lib_ok build_request w0] d2
    by (simp add: do_POST_record build_request_def eval_request eval_world)
  show ?thesis using t1 d1 lo r1 t2 d2 r2 by (intro conjI) assumption+
qed

text \<open>
  C10. A request that passes the checks and does not terminate is stored under the
  stripped id, with the stripped title and the stripped message, and the answer
  names the stripped id. The stored message is the request's message without a
  prefix and a suffix of whitespace, it neither starts nor ends with whitespace,
  and it is empty when \<open>event_msg\<close> is absent. A request whose id and message
  differ from it by surrounding whitespace only has the same effect.
\<close>

theorem register_stores_stripped:
  assumes "valid_request lib (Inr (JObject kvs))"
    and "lower (unicode_lower lib) (field lib kvs (lit ''event_title'')) \<noteq> lit ''terminate''"
  shows "\<exists>w'. do_POST lib (Inr (JObject kvs)) w = Inr w'
     \<and> store w' = upsert (strip (raw_field lib kvs (lit ''window_id'')))
                    (strip (raw_field lib kvs (lit ''event_title'')))
                    (strip (raw_field lib kvs (lit ''event_msg''))) (store w)
     \<and> Respond 200 [(lit ''status'', lit ''registered''),
                     (lit ''window_id'', strip (raw_field lib kvs (lit ''window_id'')))]
         \<in> set (log w')
     \<and> (map_of kvs (lit ''event_msg'') = None \<longrightarrow>
          strip (raw_field lib kvs (lit ''event_msg'')) = [])
     \<and> (\<exists>a b. raw_field lib kvs (lit ''event_msg'')
                 = a @ strip (raw_field lib kvs (lit ''event_msg'')) @ b
               \<and> list_all isspace_cp a \<and> list_all isspace_cp b)
     \<and> (strip (raw_field lib kvs (lit ''event_msg'')) \<noteq> [] \<longrightarrow>
           \<not> isspace_cp (hd (strip (raw_field lib kvs (lit ''event_msg''))))
         \<and> \<not> isspace_cp (last (strip (raw_field lib kvs (lit ''event_msg'')))))
     \<and> (\<forall>kvs2 a b c d.
           list_all isspace_cp a \<and> list_all isspace_cp b
         \<and> list_all isspace_cp c \<and> list_all isspace_cp d
         \<and> raw_field lib kvs2 (lit ''window_id'') = a @ raw_field lib kvs (lit ''window_id'') @ b
         \<and> raw_field lib kvs2 (lit ''event_title'') = raw_field lib kvs (lit ''event_title'')
         \<and> raw_field lib kvs2 (lit ''event_msg'') = c @ raw_field lib kvs (lit ''event_msg'') @ d
         \<longrightarrow> do_POST lib (Inr (JObject kvs2)) w = do_POST lib (Inr (JObject kvs)) w)"
proof -
  let ?w' = "dispatch lib (field lib kvs (lit ''window_id'')) (field lib kvs (lit ''event_title''))
                  (field lib kvs (lit ''event_msg'')) w"
  have post: "do_POST lib (Inr (JObject kvs)) w = Inr ?w'"
    using assms(1) by (rule do_POST_valid)
  have st: "store ?w' = upsert (field lib kvs (lit ''window_id''))
                    (field lib kvs (lit ''event_title''))
                    (field lib kvs (lit ''event_msg'')) (store w)"
    and lg: "Respond 200 [(lit ''status'', lit ''registered''),
                     (lit ''window_id'', field lib kvs (lit ''window_id''))] \<in> set (log ?w')"
    using dispatch_upsert [OF assms(2)] by simp_all
  have absent: "map_of kvs (lit ''event_msg'') = None \<longrightarrow>
          strip (raw_field lib kvs (lit ''event_msg'')) = []"
    using field_absent [of kvs "lit ''event_msg''" lib] by (simp add: field_def)
  have same: "\<forall>kvs2 a b c d.
           list_all isspace_cp a \<and> list_all isspace_cp b
         \<and> list_all isspace_cp c \<and> list_all isspace_cp d
         \<and> raw_field lib kvs2 (lit ''window_id'') = a @ raw_field lib kvs (lit ''window_id'') @ b
         \<and> raw_field lib kvs2 (lit ''event_title'') = raw_field lib kvs (lit ''event_title'')
         \<and> raw_field lib kvs2 (lit ''event_msg'') = c @ raw_field lib kvs (lit ''event_msg'') @ d
         \<longrightarrow> do_POST lib (Inr (JObject kvs2)) w = do_POST lib (Inr (JObject kvs)) w"
    by (simp add: do_POST_record field_def strip_surrounded)
  obtain w' where a: "do_POST lib (Inr (JObject kvs)) w = Inr w'"
    and b: "store w' = upsert (strip (raw_field lib kvs (lit ''window_id'')))
                    (strip (raw_field lib kvs (lit ''event_title'')))
                    (strip (raw_field lib kvs (lit ''event_msg''))) (store w)"
    and c: "Respond 200 [(lit ''status'', lit ''registered''),
                     (lit ''window_id'', strip (raw_field lib kvs (lit ''window_id'')))]
         \<in> set (log w')"
    using post st lg unfolding field_def by blast
  have ends: "strip (raw_field lib kvs (lit ''event_msg'')) \<noteq> [] \<longrightarrow>
           \<not> isspace_cp (hd (strip (raw_field lib kvs (lit ''event_msg''))))
         \<and> \<not> isspace_cp (last (strip (raw_field lib kvs (lit ''event_msg''))))"
    using strip_ends [of "raw_field lib kvs (lit ''event_msg'')"] by blast
  show ?thesis
    using a b c absent strip_decomp [of "raw_field lib kvs (lit ''event_msg'')"] ends same
    by (intro exI [of _ w'] conjI) assumption+
qed

theorem register_stores_stripped_witness:
  "valid_request lib_ok (Inr (JObject plain_request))
   \<and> lower (unicode_lower lib_ok) (field lib_ok plain_request (lit ''event_title''))
       \<noteq> lit ''terminate''
   \<and> do_POST lib_ok (Inr (JObject padded_request)) w0
     = do_POST lib_ok (Inr (JObject plain_request)) w0
   \<and> do_POST lib_ok (Inr (JObject plain_request)) w0
     = Inr (w0\<lparr>store := [(lit ''12'',
                             \<lparr>event_title = lit ''build'', event_msg = lit ''hi'', unseen = True\<rparr>)],
               app := (app w0)\<lparr>dirty := True\<rparr>,
               log := [Store_upsert (lit ''12'') (lit ''build'') (lit ''hi''),
                       Respond 200 [(lit ''status'', lit ''registered''),
                                    (lit ''window_id'', lit ''12'')],
                       Dirty_set]\<rparr>)"
proof -
  have v: "valid_request lib_ok (Inr (JObject plain_request))"
    by (simp add: plain_request_def eval_request)
  have nt: "lower (unicode_lower lib_ok) (field lib_ok plain_request (lit ''event_title''))
       \<noteq> lit ''terminate''"
    by (simp add: plain_request_def eval_request)
  have sp: "list_all isspace_cp [32]" "list_all isspace_cp [9]" "list_all isspace_cp [160, 10]"
    by (simp_all add: isspace_cp_def in_ranges_def space_ranges_def)
  have r1: "raw_field lib_ok padded_request (lit ''window_id'')
              = [32] @ raw_field lib_ok plain_request (lit ''window_id'') @ [32]"
    and r2: "raw_field lib_ok padded_request (lit ''event_title'')
              = raw_field lib_ok plain_request (lit ''event_title'')"
    and r3: "raw_field lib_ok padded_request (lit ''event_msg'')
              = [9] @ raw_field lib_ok plain_request (lit ''event_msg'') @ [160, 10]"
    by (simp_all add: padded_request_def plain_request_def raw_field_def py_str_def lit_def)
  have same: "do_POST lib_ok (Inr (JObject padded_request)) w0
     = do_POST lib_ok (Inr (JObject plain_request)) w0"
    using register_stores_stripped [OF v nt, of w0] sp r1 r2 r3 by blast
  have plain: "do_POST lib_ok (Inr (JObject plain_request)) w0
     = Inr (w0\<lparr>store := [(lit ''12'',
                             \<lparr>event_title = lit ''build'', event_msg = lit ''hi'', unseen = True\<rparr>)],
               app := (app w0)\<lparr>dirty := True\<rparr>,
               log := [Store_upsert (lit ''12'') (lit ''build'') (lit ''hi''),
                       Respond 200 [(lit ''status'', lit ''registered''),
                                    (lit ''window_id'', lit ''12'')],
                       Dirty_set]\<rparr>)"
    by (simp add: do_POST_record plain_request_def eval_request eval_world)
  show ?thesis using v nt same plain by (intro conjI) assumption+
qed

lemmas eval_app = rebuild_menu_def poll_for_updates_def click_handler_def
  focus_terminal_window_def store_mark_all_seen_def mark_all_seen_def get_all_def
  has_unseen_def label_def ICON_NORMAL_def ICON_UNSEEN_def osascript_args_def

text \<open>
  C1. The id U+00B2 is not one of the digits 0 to 9, and \<open>str.isdigit\<close> accepts it.
  The request is answered 200 "registered" and the id is stored; the next poll
  makes a menu item whose handler is bound to that id, and a click on it runs
  \<open>osascript\<close> with the id put into the script.
\<close>

theorem superscript_id_reaches_osascript:
  "\<not> ascii_digits [178] \<and> isdigit [178]
   \<and> do_POST lib_ok (Inr (JObject superscript_request)) w0 = Inr superscript_world
   \<and> menu (app (poll_for_updates superscript_world))
       = [MenuItem ([9679, 32] @ lit ''build'') (Click [178]), Separator,
          MenuItem (lit ''Quit'') Quit]
   \<and> map_sum id log (click_handler lib_ok [178] (poll_for_updates superscript_world))
       = Inr [Store_upsert [178] (lit ''build'') [],
              Respond 200 [(lit ''status'', lit ''registered''), (lit ''window_id'', [178])],
              Dirty_set, Rebuild_menu,
              Subprocess_run [lit ''osascript'', lit ''-e'', script [178]] 5,
              Store_mark_all_seen, Rebuild_menu]"
proof -
  have 0: "\<not> ascii_digits [178]" by (simp add: ascii_digits_def)
  have 1: "isdigit [178]"
    by (simp add: isdigit_def isdigit_cp_def in_ranges_def digit_ranges_def)
  have 2: "do_POST lib_ok (Inr (JObject superscript_request)) w0 = Inr superscript_world"
    by (simp add: do_POST_record superscript_request_def superscript_world_def
        eval_request eval_world)
  have 3: "menu (app (poll_for_updates superscript_world))
       = [MenuItem ([9679, 32] @ lit ''build'') (Click [178]), Separator,
          MenuItem (lit ''Quit'') Quit]"
    by (simp add: superscript_world_def w0_def eval_app)
  have 4: "map_sum id log (click_handler lib_ok [178] (poll_for_updates superscript_world))
       = Inr [Store_upsert [178] (lit ''build'') [],
              Respond 200 [(lit ''status'', lit ''registered''), (lit ''window_id'', [178])],
              Dirty_set, Rebuild_menu,
              Subprocess_run [lit ''osascript'', lit ''-e'', script [178]] 5,
              Store_mark_all_seen, Rebuild_menu]"
    by (simp add: superscript_world_def w0_def lib_ok_def eval_app)
  show ?thesis using 0 1 2 3 4 by (intro conjI) assumption+
qed

section \<open>Properties of the app\<close>

lemma log_rebuild_menu: "log (rebuild_menu w) = log w @ [Rebuild_menu]"
  by (simp add: rebuild_menu_def Let_def)

lemma store_rebuild_menu: "store (rebuild_menu w) = store w"
  by (simp add: rebuild_menu_def Let_def)

lemma dirty_rebuild_menu: "dirty (app (rebuild_menu w)) = dirty (app w)"
  by (simp add: rebuild_menu_def Let_def)

lemma title_rebuild_menu:
  "title (app (rebuild_menu w)) =
     Some ((if has_unseen (store w) then ICON_UNSEEN else ICON_NORMAL)
           @ str_nat (count (store w)))"
  by (simp add: rebuild_menu_def Let_def get_all_id count_def)

lemma poll_dirty:
  "dirty (app w) \<Longrightarrow>
   log (poll_for_updates w) = log w @ [Rebuild_menu] \<and> \<not> dirty (app (poll_for_updates w))"
  by (simp add: poll_for_updates_def log_rebuild_menu dirty_rebuild_menu)

lemma poll_clean: "\<not> dirty (app w) \<Longrightarrow> poll_for_updates w = w"
  by (simp add: poll_for_updates_def)

lemma poll_poll: "poll_for_updates (poll_for_updates w) = poll_for_updates w"
  by (cases "dirty (app w)") (simp_all add: poll_clean poll_dirty)

lemma notify_many:
  "log ((schedule_refresh ^^ n) w) = log w @ replicate n Dirty_set
   \<and> store ((schedule_refresh ^^ n) w) = store w
   \<and> dirty (app ((schedule_refresh ^^ n) w)) = (0 < n \<or> dirty (app w))"
  by (induction n) (auto simp: schedule_refresh_def replicate_append_same)

lemma count_list_replicate_other: "x \<noteq> y \<Longrightarrow> count_list (replicate n x) y = 0"
  by (induction n) auto

text \<open>
  With a handler whose \<open>app_ref\<close> is \<open>None\<close> (the guard \<open>if self.app_ref:\<close>, and the
  configuration of the repository's tests) a dispatch whose response is written
  signals nothing.
\<close>

lemma no_app_ref_no_signal:
  "do_POST lib_ok (Inr (JObject plain_request)) (w0\<lparr>app_ref_set := False\<rparr>)
   = Inr (w0\<lparr>app_ref_set := False,
             store := [(lit ''12'',
                        \<lparr>event_title = lit ''build'', event_msg = lit ''hi'', unseen = True\<rparr>)],
             log := [Store_upsert (lit ''12'') (lit ''build'') (lit ''hi''),
                     Respond 200 [(lit ''status'', lit ''registered''),
                                  (lit ''window_id'', lit ''12'')]]\<rparr>)"
  by (simp add: do_POST_record plain_request_def eval_request eval_world)

text \<open>
  When every write returns: a dispatch changes the store, then answers 200, and
  then, if the handler holds the app, sets the dirty flag once. Any number of
  notifications (at least one) before a poll gives one rebuild at that poll, a poll
  never rebuilds more than once, and a second poll without a new notification
  rebuilds nothing.
\<close>

lemma dispatch_written_signals:
  assumes "valid_request lib (Inr (JObject kvs))"
  shows "\<exists>w' ev body. do_POST lib (Inr (JObject kvs)) w = Inr w'
     \<and> log w' = log w @ [ev, Respond 200 body] @ (if app_ref_set w then [Dirty_set] else [])
     \<and> (ev = Store_remove (field lib kvs (lit ''window_id''))
          \<and> store w' = remove (field lib kvs (lit ''window_id'')) (store w)
        \<or> ev = Store_upsert (field lib kvs (lit ''window_id''))
                 (field lib kvs (lit ''event_title'')) (field lib kvs (lit ''event_msg''))
          \<and> store w' = upsert (field lib kvs (lit ''window_id''))
                 (field lib kvs (lit ''event_title'')) (field lib kvs (lit ''event_msg''))
                 (store w))
     \<and> app w' = (if app_ref_set w then (app w)\<lparr>dirty := True\<rparr> else app w)
     \<and> count_list (log (poll_for_updates ((schedule_refresh ^^ Suc n) v))) Rebuild_menu
         = Suc (count_list (log v) Rebuild_menu)
     \<and> count_list (log (poll_for_updates v)) Rebuild_menu \<le> Suc (count_list (log v) Rebuild_menu)
     \<and> poll_for_updates (poll_for_updates v) = poll_for_updates v"
proof -
  let ?k = "field lib kvs (lit ''window_id'')"
  let ?t = "field lib kvs (lit ''event_title'')"
  let ?m = "field lib kvs (lit ''event_msg'')"
  have post: "do_POST lib (Inr (JObject kvs)) w = Inr (dispatch lib ?k ?t ?m w)"
    using assms by (rule do_POST_valid)
  have many: "count_list (log (poll_for_updates ((schedule_refresh ^^ Suc n) v))) Rebuild_menu
         = Suc (count_list (log v) Rebuild_menu)"
  proof -
    have d: "dirty (app ((schedule_refresh ^^ Suc n) v))"
      using notify_many [of "Suc n" v] by simp
    show ?thesis
      using poll_dirty [OF d] notify_many [of "Suc n" v]
      by (simp add: count_list_replicate_other del: funpow.simps)
  qed
  have atmost: "count_list (log (poll_for_updates v)) Rebuild_menu
                  \<le> Suc (count_list (log v) Rebuild_menu)"
    by (cases "dirty (app v)") (simp_all add: poll_clean poll_dirty)
  have disp: "\<exists>ev body. 
       log (dispatch lib ?k ?t ?m w)
         = log w @ [ev, Respond 200 body] @ (if app_ref_set w then [Dirty_set] else [])
     \<and> (ev = Store_remove ?k \<and> store (dispatch lib ?k ?t ?m w) = remove ?k (store w)
        \<or> ev = Store_upsert ?k ?t ?m \<and> store (dispatch lib ?k ?t ?m w) = upsert ?k ?t ?m (store w))"
  proof (cases "lower (unicode_lower lib) ?t = lit ''terminate''")
    case True
    show ?thesis using dispatch_remove [OF True, of ?k ?m w] by blast
  next
    case False
    show ?thesis using dispatch_upsert [OF False, of ?k ?m w] by blast
  qed
  then obtain ev body where
    a: "log (dispatch lib ?k ?t ?m w)
         = log w @ [ev, Respond 200 body] @ (if app_ref_set w then [Dirty_set] else [])"
    and b: "ev = Store_remove ?k \<and> store (dispatch lib ?k ?t ?m w) = remove ?k (store w)
        \<or> ev = Store_upsert ?k ?t ?m \<and> store (dispatch lib ?k ?t ?m w) = upsert ?k ?t ?m (store w)"
    by blast
  show ?thesis
    using post a b dispatch_app [of lib ?k ?t ?m w] many atmost poll_poll [of v]
    by (intro exI [of _ "dispatch lib ?k ?t ?m w"] exI [of _ ev] exI [of _ body] conjI)
      assumption+
qed

text \<open>
  When the write of the 200 response raises an exception of class \<open>Exception\<close>, the
  store call has been made, \<open>schedule_refresh\<close> is skipped, and the handler tries to
  answer 500 in the changed state.
\<close>

lemma do_POST_io_written:
  "map_sum fst id (do_POST_io (\<lambda>status_code body. Inr ()) lib loaded w) = do_POST lib loaded w"
  by (simp add: do_POST_def)

lemma respond_io_raises: "send c b = Inl e \<Longrightarrow> respond_io send c b w = Inl (e, w)"
  by (simp add: respond_io_def)

lemma do_POST_io_write_fails:
  assumes "valid_request lib (Inr (JObject kvs))"
    and "\<forall>body. send 200 body = Inl e"
    and "is_Exception e" and "\<not> is_JSONDecodeError e"
  shows "do_POST_io send lib (Inr (JObject kvs)) w =
           respond_io send 500 [(lit ''error'', str_exn e)]
             (if lower (unicode_lower lib) (field lib kvs (lit ''event_title'')) = lit ''terminate''
              then store_remove (field lib kvs (lit ''window_id'')) w
              else store_upsert (field lib kvs (lit ''window_id''))
                     (field lib kvs (lit ''event_title'')) (field lib kvs (lit ''event_msg'')) w)"
  using assms
  by (simp add: do_POST_io_def do_POST_try_io_def respond_io_raises dict_get_def
      valid_request_def field_def raw_field_def Let_def)

text \<open>
  C7. A request that passes every check, to a handler that holds the app, from a
  client that has closed the connection. \<open>upsert\<close> is called, the write of the 200
  response raises, and \<open>schedule_refresh\<close> is never reached: the store has changed and
  the dirty flag is not set, whether the 500 response of the handler is written or
  raises too.
\<close>

theorem closed_client_loses_signal:
  "valid_request lib_ok (Inr (JObject plain_request))
   \<and> app_ref_set w0 \<and> dirty (app w0) = False
   \<and> do_POST_io send_closed lib_ok (Inr (JObject plain_request)) w0
     = Inl (OtherException (lit ''[Errno 32] Broken pipe''),
            w0\<lparr>store := [(lit ''12'',
                           \<lparr>event_title = lit ''build'', event_msg = lit ''hi'', unseen = True\<rparr>)],
               log := [Store_upsert (lit ''12'') (lit ''build'') (lit ''hi'')]\<rparr>)
   \<and> do_POST_io send_200_fails lib_ok (Inr (JObject plain_request)) w0
     = Inr (w0\<lparr>store := [(lit ''12'',
                             \<lparr>event_title = lit ''build'', event_msg = lit ''hi'', unseen = True\<rparr>)],
               log := [Store_upsert (lit ''12'') (lit ''build'') (lit ''hi''),
                       Respond 500 [(lit ''error'', lit ''[Errno 32] Broken pipe'')]]\<rparr>)"
proof -
  have v: "valid_request lib_ok (Inr (JObject plain_request))"
    by (simp add: plain_request_def eval_request)
  have a: "app_ref_set w0" and d: "dirty (app w0) = False" by (simp_all add: w0_def)
  have nt: "lower (unicode_lower lib_ok) (field lib_ok plain_request (lit ''event_title''))
       \<noteq> lit ''terminate''"
    by (simp add: plain_request_def eval_request)
  have f: "field lib_ok plain_request (lit ''window_id'') = lit ''12''"
    "field lib_ok plain_request (lit ''event_title'') = lit ''build''"
    "field lib_ok plain_request (lit ''event_msg'') = lit ''hi''"
    by (simp_all add: plain_request_def eval_request)
  have c: "do_POST_io send_closed lib_ok (Inr (JObject plain_request)) w0
     = Inl (OtherException (lit ''[Errno 32] Broken pipe''),
            w0\<lparr>store := [(lit ''12'',
                           \<lparr>event_title = lit ''build'', event_msg = lit ''hi'', unseen = True\<rparr>)],
               log := [Store_upsert (lit ''12'') (lit ''build'') (lit ''hi'')]\<rparr>)"
    using do_POST_io_write_fails
      [OF v, of send_closed "OtherException (lit ''[Errno 32] Broken pipe'')" w0] nt
    by (simp add: f send_closed_def respond_io_def store_upsert_def upsert_def w0_def
        empty_store_def)
  have p: "do_POST_io send_200_fails lib_ok (Inr (JObject plain_request)) w0
     = Inr (w0\<lparr>store := [(lit ''12'',
                             \<lparr>event_title = lit ''build'', event_msg = lit ''hi'', unseen = True\<rparr>)],
               log := [Store_upsert (lit ''12'') (lit ''build'') (lit ''hi''),
                       Respond 500 [(lit ''error'', lit ''[Errno 32] Broken pipe'')]]\<rparr>)"
    using do_POST_io_write_fails
      [OF v, of send_200_fails "OtherException (lit ''[Errno 32] Broken pipe'')" w0] nt
    by (simp add: f send_200_fails_def respond_io_def respond_def store_upsert_def upsert_def
        w0_def empty_store_def)
  show ?thesis using v a d c p by (intro conjI) assumption+
qed

lemma count_mark_all_seen: "count (mark_all_seen st) = count st"
  by (simp add: count_def mark_all_seen_def)

lemma focus_absorbs:
  assumes "\<forall>m. subprocess_run lib (osascript_args window_id) 5 \<noteq> Inl (BaseExceptionOnly m)"
  shows "focus_terminal_window lib window_id w
           = Inr (w\<lparr>log := log w @ [Subprocess_run (osascript_args window_id) 5]\<rparr>)"
proof (cases "subprocess_run lib (osascript_args window_id) 5")
  case (Inl e)
  then have "is_Exception e" using assms by (cases e) auto
  then show ?thesis using Inl by (simp add: focus_terminal_window_def)
next
  case (Inr u)
  then show ?thesis by (simp add: focus_terminal_window_def)
qed

text \<open>
  C8. Whenever \<open>subprocess.run\<close> returns, times out or fails with an exception of
  class \<open>Exception\<close>, \<open>focus_terminal_window\<close> returns normally after the one call,
  made with timeout 5. The click handler then calls \<open>mark_all_seen\<close> and rebuilds
  the menu, in that order: the store is the swept one, no session is unseen, and
  the title carries the normal icon.
\<close>

theorem activation_failure_absorbed:
  assumes "\<forall>m. subprocess_run lib (osascript_args window_id) 5 \<noteq> Inl (BaseExceptionOnly m)"
  shows "focus_terminal_window lib window_id w
           = Inr (w\<lparr>log := log w @ [Subprocess_run (osascript_args window_id) 5]\<rparr>)
     \<and> (\<exists>w'. click_handler lib window_id w = Inr w'
          \<and> log w' = log w @ [Subprocess_run (osascript_args window_id) 5,
                               Store_mark_all_seen, Rebuild_menu]
          \<and> store w' = mark_all_seen (store w)
          \<and> \<not> has_unseen (store w')
          \<and> title (app w') = Some (ICON_NORMAL @ str_nat (count (store w))))"
proof -
  let ?w1 = "w\<lparr>log := log w @ [Subprocess_run (osascript_args window_id) 5]\<rparr>"
  let ?w' = "rebuild_menu (store_mark_all_seen ?w1)"
  have f: "focus_terminal_window lib window_id w = Inr ?w1"
    using assms by (rule focus_absorbs)
  then have c: "click_handler lib window_id w = Inr ?w'"
    by (simp add: click_handler_def)
  have l: "log ?w' = log w @ [Subprocess_run (osascript_args window_id) 5,
                               Store_mark_all_seen, Rebuild_menu]"
    by (simp add: log_rebuild_menu store_mark_all_seen_def)
  have s: "store ?w' = mark_all_seen (store w)"
    by (simp add: store_rebuild_menu store_mark_all_seen_def)
  have u: "\<not> has_unseen (store ?w')"
    by (simp only: s has_unseen_mark_all_seen not_False_eq_True)
  have t: "title (app ?w') = Some (ICON_NORMAL @ str_nat (count (store w)))"
    by (simp add: title_rebuild_menu store_mark_all_seen_def has_unseen_mark_all_seen
        count_mark_all_seen)
  show ?thesis using f c l s u t by blast
qed

theorem activation_failure_absorbed_witness:
  "(\<forall>m. subprocess_run lib_timeout (osascript_args (lit ''12'')) 5 \<noteq> Inl (BaseExceptionOnly m))
   \<and> subprocess_run lib_timeout (osascript_args (lit ''12'')) 5
       = Inl (TimeoutExpired (lit ''timed out''))
   \<and> focus_terminal_window lib_timeout (lit ''12'') w0
       = Inr (w0\<lparr>log := [Subprocess_run (osascript_args (lit ''12'')) 5]\<rparr>)
   \<and> map_sum id log (click_handler lib_timeout (lit ''12'') w0)
       = Inr [Subprocess_run (osascript_args (lit ''12'')) 5, Store_mark_all_seen, Rebuild_menu]"
proof -
  have h: "\<forall>m. subprocess_run lib_timeout (osascript_args (lit ''12'')) 5
             \<noteq> Inl (BaseExceptionOnly m)"
    by (simp add: lib_timeout_def)
  have r: "subprocess_run lib_timeout (osascript_args (lit ''12'')) 5
       = Inl (TimeoutExpired (lit ''timed out''))"
    by (simp add: lib_timeout_def)
  have f: "focus_terminal_window lib_timeout (lit ''12'') w0
       = Inr (w0\<lparr>log := [Subprocess_run (osascript_args (lit ''12'')) 5]\<rparr>)"
    using activation_failure_absorbed [OF h, of w0] by (simp add: w0_def)
  have c: "map_sum id log (click_handler lib_timeout (lit ''12'') w0)
       = Inr [Subprocess_run (osascript_args (lit ''12'')) 5, Store_mark_all_seen, Rebuild_menu]"
    using activation_failure_absorbed [OF h, of w0] by (auto simp: w0_def)
  show ?thesis using h r f c by (intro conjI) assumption+
qed


section \<open>Properties of the object store\<close>

lemma cell_append:
  "cell (h @ ext) a =
     (if a < length h then cell h a
      else if a < length h + length ext then Some (ext ! (a - length h)) else None)"
  by (simp add: cell_def nth_append)

lemma cell_update:
  "cell (h[a := ob]) b = (if b = a \<and> a < length h then Some ob else cell h b)"
  by (auto simp: cell_def)

lemma cell_Some_less: "cell h a = Some ob \<Longrightarrow> a < length h"
  by (simp add: cell_def split: if_splits)

lemma is_session_less: "is_session h a \<Longrightarrow> a < length h"
  by (auto simp: is_session_def cell_def split: if_splits)

lemma deref_cong:
  "(\<forall>a \<in> snd ` set kvs. cell h' a = cell h a) \<Longrightarrow> deref h' kvs = deref h kvs"
  by (induction kvs) (auto split: option.splits obj.splits)

lemma deref_update:
  assumes "cell h' a = Some (Session_dict s)"
    and "\<forall>b \<in> snd ` set kvs. cell h' b = cell h b"
    and "list_all (is_session h) (map snd kvs)"
  shows "deref h' (AList.update k a kvs) = AList.update k s (deref h kvs)"
  using assms
  by (induction kvs)
    (auto simp: is_session_def deref_cong [of _ h' h] split: option.splits obj.splits)

lemma deref_delete: "deref h (AList.delete k kvs) = AList.delete k (deref h kvs)"
  by (induction kvs) (auto split: option.splits obj.splits)

lemma seen_obj_idem: "seen_obj (seen_obj x) = seen_obj x"
  by (simp add: seen_obj_def split: option.splits obj.splits)

lemma length_set_seen: "length (set_seen a h) = length h"
  by (simp add: set_seen_def split: option.splits obj.splits)

lemma cell_set_seen: "cell (set_seen a h) b = (if b = a then seen_obj (cell h a) else cell h b)"
  by (auto simp: set_seen_def seen_obj_def cell_update dest: cell_Some_less
      split: option.splits obj.splits)

lemma length_fold_set_seen: "length (fold set_seen as h) = length h"
  by (induction as arbitrary: h) (simp_all add: length_set_seen)

lemma cell_fold_set_seen:
  "cell (fold set_seen as h) b = (if b \<in> set as then seen_obj (cell h b) else cell h b)"
  by (induction as arbitrary: h) (auto simp: cell_set_seen seen_obj_idem)

lemma deref_seen:
  "\<forall>a \<in> snd ` set kvs. cell h' a = seen_obj (cell h a) \<Longrightarrow>
   deref h' kvs = map (\<lambda>(k, s). (k, s\<lparr>unseen := False\<rparr>)) (deref h kvs)"
  by (induction kvs) (auto simp: seen_obj_def split: option.splits obj.splits)

lemma dict_okD:
  assumes "dict_ok h r"
  obtains kvs where "cell h r = Some (Sessions_dict kvs)" "sessions_at h r = kvs"
    "list_all (is_session h) (map snd kvs)" "r < length h" "r \<notin> snd ` set kvs"
proof -
  from assms obtain kvs where c: "cell h r = Some (Sessions_dict kvs)"
    by (auto simp: dict_ok_def split: option.splits obj.splits)
  then have s: "sessions_at h r = kvs" by (simp add: sessions_at_def)
  have l: "list_all (is_session h) (map snd kvs)" using assms s by (simp add: dict_ok_def)
  have "\<not> is_session h r" using c by (simp add: is_session_def)
  then have "r \<notin> snd ` set kvs" using l by (auto simp: list_all_iff)
  then show ?thesis using that c s l cell_Some_less [OF c] by blast
qed

lemma dict_okI:
  "cell h r = Some (Sessions_dict kvs) \<Longrightarrow> \<forall>a \<in> snd ` set kvs. is_session h a \<Longrightarrow> dict_ok h r"
  by (simp add: dict_ok_def sessions_at_def list_all_iff)

lemma snd_update_subset: "snd ` set (AList.update k v al) \<subseteq> insert v (snd ` set al)"
  by (induction al) auto

lemma snd_delete_subset: "snd ` set (AList.delete k al) \<subseteq> snd ` set al"
  by (induction al) auto

lemma init_obj_ok:
  "init_obj h = (r, h') \<Longrightarrow> dict_ok h' r \<and> contents h' r = empty_store"
  by (auto simp: init_obj_def new_def dict_ok_def contents_def sessions_at_def cell_def
      empty_store_def)

lemma upsert_obj_step:
  assumes "dict_ok h r"
  shows "step_ok r h (upsert_obj r k t m h) (upsert k t m)"
proof -
  from assms obtain kvs where c: "cell h r = Some (Sessions_dict kvs)"
    and s: "sessions_at h r = kvs" and l: "list_all (is_session h) (map snd kvs)"
    and r: "r < length h" and nr: "r \<notin> snd ` set kvs"
    by (rule dict_okD)
  let ?new = "\<lparr>event_title = t, event_msg = m, unseen = True\<rparr>"
  let ?kvs' = "AList.update k (length h) kvs"
  let ?h' = "(h @ [Session_dict ?new])[r := Sessions_dict ?kvs']"
  have h': "upsert_obj r k t m h = ?h'" by (simp add: upsert_obj_def new_def s)
  have cell': "\<And>b. cell ?h' b =
      (if b = r then Some (Sessions_dict ?kvs')
       else if b = length h then Some (Session_dict ?new) else cell h b)"
    using r by (auto simp: cell_update cell_append cell_def nth_append)
  have old: "\<forall>b \<in> snd ` set kvs. cell ?h' b = cell h b"
  proof
    fix b assume b: "b \<in> snd ` set kvs"
    then have "is_session h b" using l by (auto simp: list_all_iff)
    then have "b < length h" by (rule is_session_less)
    moreover have "b \<noteq> r" using b nr by blast
    ultimately show "cell ?h' b = cell h b" by (simp add: cell')
  qed
  have at: "sessions_at ?h' r = ?kvs'" by (simp add: sessions_at_def cell')
  have new: "cell ?h' (length h) = Some (Session_dict ?new)" using r by (simp add: cell')
  have cont: "contents ?h' r = upsert k t m (contents h r)"
    unfolding contents_def at s upsert_def using new old l by (rule deref_update)
  have sess: "\<forall>a \<in> snd ` set ?kvs'. is_session ?h' a"
  proof
    fix a assume "a \<in> snd ` set ?kvs'"
    then have "a \<in> insert (length h) (snd ` set kvs)"
      using snd_update_subset [of k "length h" kvs] by blast
    then consider "a = length h" | "a \<in> snd ` set kvs" by blast
    then show "is_session ?h' a"
    proof cases
      case 1
      then show ?thesis using new by (simp add: is_session_def)
    next
      case 2
      then have "is_session h a" using l by (auto simp: list_all_iff)
      moreover have "cell ?h' a = cell h a" using old 2 by blast
      ultimately show ?thesis by (simp add: is_session_def)
    qed
  qed
  have cr: "cell ?h' r = Some (Sessions_dict ?kvs')" by (simp add: cell')
  have ok: "dict_ok ?h' r" using cr sess by (rule dict_okI)
  have frame: "\<forall>a < length h. a \<notin> footprint h r \<longrightarrow> cell ?h' a = cell h a"
    by (simp add: cell' footprint_def)
  have fp: "footprint ?h' r \<subseteq> footprint h r \<union> {length h ..< length ?h'}"
    using snd_update_subset [of k "length h" kvs] by (auto simp: footprint_def at s)
  show ?thesis unfolding step_ok_def h' using ok frame fp cont by simp
qed

lemma remove_obj_step:
  assumes "dict_ok h r"
  shows "step_ok r h (remove_obj r k h) (remove k)"
proof -
  from assms obtain kvs where c: "cell h r = Some (Sessions_dict kvs)"
    and s: "sessions_at h r = kvs" and l: "list_all (is_session h) (map snd kvs)"
    and r: "r < length h" and nr: "r \<notin> snd ` set kvs"
    by (rule dict_okD)
  let ?kvs' = "AList.delete k kvs"
  let ?h' = "h[r := Sessions_dict ?kvs']"
  have h': "remove_obj r k h = ?h'" by (simp add: remove_obj_def s)
  have cell': "\<And>b. cell ?h' b = (if b = r then Some (Sessions_dict ?kvs') else cell h b)"
    using r by (simp add: cell_update)
  have sub: "snd ` set ?kvs' \<subseteq> snd ` set kvs" by (rule snd_delete_subset)
  have old: "\<forall>b \<in> snd ` set kvs. cell ?h' b = cell h b"
    using nr by (auto simp: cell')
  have at: "sessions_at ?h' r = ?kvs'" by (simp add: sessions_at_def cell')
  have "\<forall>b \<in> snd ` set ?kvs'. cell ?h' b = cell h b" using old sub by blast
  then have "deref ?h' ?kvs' = deref h ?kvs'" by (rule deref_cong)
  then have cont: "contents ?h' r = remove k (contents h r)"
    by (simp add: contents_def at s remove_def deref_delete)
  have sess: "\<forall>a \<in> snd ` set ?kvs'. is_session ?h' a"
  proof
    fix a assume "a \<in> snd ` set ?kvs'"
    then have a: "a \<in> snd ` set kvs" using sub by blast
    then have "is_session h a" using l by (auto simp: list_all_iff)
    moreover have "cell ?h' a = cell h a" using old a by blast
    ultimately show "is_session ?h' a" by (simp add: is_session_def)
  qed
  have cr: "cell ?h' r = Some (Sessions_dict ?kvs')" by (simp add: cell')
  have ok: "dict_ok ?h' r" using cr sess by (rule dict_okI)
  have frame: "\<forall>a < length h. a \<notin> footprint h r \<longrightarrow> cell ?h' a = cell h a"
    by (simp add: cell' footprint_def)
  have fp: "footprint ?h' r \<subseteq> footprint h r \<union> {length h ..< length ?h'}"
    using sub by (auto simp: footprint_def at s)
  show ?thesis unfolding step_ok_def h' using ok frame fp cont by simp
qed

lemma mark_all_seen_obj_step:
  assumes "dict_ok h r"
  shows "step_ok r h (mark_all_seen_obj r h) mark_all_seen"
proof -
  from assms obtain kvs where c: "cell h r = Some (Sessions_dict kvs)"
    and s: "sessions_at h r = kvs" and l: "list_all (is_session h) (map snd kvs)"
    and r: "r < length h" and nr: "r \<notin> snd ` set kvs"
    by (rule dict_okD)
  let ?h' = "fold set_seen (map snd kvs) h"
  have h': "mark_all_seen_obj r h = ?h'" by (simp add: mark_all_seen_obj_def s)
  have cell': "\<And>b. cell ?h' b = (if b \<in> snd ` set kvs then seen_obj (cell h b) else cell h b)"
    by (simp add: cell_fold_set_seen)
  have cr: "cell ?h' r = Some (Sessions_dict kvs)" using nr c by (simp add: cell')
  have at: "sessions_at ?h' r = kvs" by (simp add: sessions_at_def cr)
  have "deref ?h' kvs = map (\<lambda>(k, s). (k, s\<lparr>unseen := False\<rparr>)) (deref h kvs)"
    by (rule deref_seen) (simp add: cell')
  then have cont: "contents ?h' r = mark_all_seen (contents h r)"
    by (simp add: contents_def at s mark_all_seen_def)
  have sess: "\<forall>a \<in> snd ` set kvs. is_session ?h' a"
    using l by (auto simp: is_session_def list_all_iff cell' seen_obj_def
        split: option.splits obj.splits)
  have ok: "dict_ok ?h' r" using sess cr by (rule dict_okI [rotated])
  have frame: "\<forall>a < length h. a \<notin> footprint h r \<longrightarrow> cell ?h' a = cell h a"
    by (simp add: cell' footprint_def s)
  have fp: "footprint ?h' r \<subseteq> footprint h r \<union> {length h ..< length ?h'}"
    by (auto simp: footprint_def at s)
  show ?thesis unfolding step_ok_def h'
    using ok frame fp cont by (simp add: length_fold_set_seen)
qed

lemma cell_append_old: "a < length h \<Longrightarrow> cell (h @ ext) a = cell h a"
  by (simp add: cell_append)

lemma is_session_append: "is_session h a \<Longrightarrow> is_session (h @ ext) a"
  using is_session_less [of h a] by (simp add: is_session_def cell_append_old)

lemma cells_append_sessions:
  assumes "list_all (is_session h) (map snd kvs)"
  shows "\<forall>b \<in> snd ` set kvs. cell (h @ ext) b = cell h b"
proof
  fix b assume "b \<in> snd ` set kvs"
  then have "is_session h b" using assms by (auto simp: list_all_iff)
  then have "b < length h" by (rule is_session_less)
  then show "cell (h @ ext) b = cell h b" by (rule cell_append_old)
qed

lemma contents_cong:
  assumes "\<forall>a \<in> footprint h s. cell h' a = cell h a"
  shows "contents h' s = contents h s \<and> footprint h' s = footprint h s
         \<and> dict_ok h' s = dict_ok h s"
proof -
  have c: "cell h' s = cell h s" using assms by (simp add: footprint_def)
  then have at: "sessions_at h' s = sessions_at h s" by (simp add: sessions_at_def)
  have cells: "\<forall>a \<in> snd ` set (sessions_at h s). cell h' a = cell h a"
    using assms by (simp add: footprint_def)
  then have d: "deref h' (sessions_at h s) = deref h (sessions_at h s)" by (rule deref_cong)
  have "list_all (is_session h') (map snd (sessions_at h s))
          = list_all (is_session h) (map snd (sessions_at h s))"
    using cells by (auto simp: list_all_iff is_session_def)
  then show ?thesis using c at d by (simp add: contents_def footprint_def dict_ok_def)
qed

lemma changes_only_cell:
  "changes_only S h h' \<Longrightarrow> a < length h \<Longrightarrow> a \<notin> S \<Longrightarrow> cell h' a = cell h a"
  by (simp add: changes_only_def cell_def)

lemma footprint_less: "dict_ok h r \<Longrightarrow> footprint h r \<subseteq> {..< length h}"
proof -
  assume "dict_ok h r"
  then obtain kvs where "sessions_at h r = kvs" "list_all (is_session h) (map snd kvs)"
    "r < length h"
    by (rule dict_okD)
  then show ?thesis by (auto simp: footprint_def list_all_iff dest: is_session_less)
qed

lemma copy_sessions_props:
  assumes "copy_sessions kvs h = (kvs', h')" and "list_all (is_session h) (map snd kvs)"
  shows "(\<exists>ext. h' = h @ ext) \<and> snd ` set kvs' \<subseteq> {length h ..< length h'}
         \<and> deref h' kvs' = deref h kvs \<and> list_all (is_session h') (map snd kvs')"
  using assms
proof (induction kvs arbitrary: h kvs' h')
  case Nil
  then show ?case by simp
next
  case (Cons p kvs)
  obtain k a where p: "p = (k, a)" by (cases p)
  from Cons.prems(2) p obtain s where s: "cell h a = Some (Session_dict s)"
    by (auto simp: is_session_def split: option.splits obj.splits)
  let ?h1 = "h @ [Session_dict s]"
  obtain rest h2 where rec: "copy_sessions kvs ?h1 = (rest, h2)"
    by (cases "copy_sessions kvs ?h1")
  have res: "kvs' = (k, length h) # rest" "h' = h2"
    using Cons.prems(1) p s rec by (simp_all add: new_def)
  have all1: "list_all (is_session ?h1) (map snd kvs)"
    using Cons.prems(2) by (auto simp: list_all_iff is_session_append)
  from Cons.IH [OF rec all1] obtain ext where
    ext: "h2 = ?h1 @ ext" and addrs: "snd ` set rest \<subseteq> {length ?h1 ..< length h2}"
    and d: "deref h2 rest = deref ?h1 kvs" and ok: "list_all (is_session h2) (map snd rest)"
    by blast
  have new: "cell h2 (length h) = Some (Session_dict s)"
    by (simp add: ext cell_def nth_append)
  have "list_all (is_session h) (map snd kvs)" using Cons.prems(2) by simp
  then have "\<forall>b \<in> snd ` set kvs. cell ?h1 b = cell h b"
    by (rule cells_append_sessions)
  then have d1: "deref ?h1 kvs = deref h kvs" by (rule deref_cong)
  have 1: "\<exists>ext. h' = h @ ext" using ext res by simp
  have 2: "snd ` set kvs' \<subseteq> {length h ..< length h'}"
    using addrs res ext by auto
  have 3: "deref h' kvs' = deref h (p # kvs)"
    using res new d d1 p s by simp
  have 4: "list_all (is_session h') (map snd kvs')"
    using res new ok by (simp add: is_session_def)
  show ?case using 1 2 3 4 by blast
qed

lemma get_all_obj_props:
  assumes "dict_ok h r" and "get_all_obj r h = (s, h1)"
  shows "(\<exists>ext. h1 = h @ ext) \<and> footprint h1 s \<subseteq> {length h ..< length h1}
         \<and> dict_ok h1 s \<and> contents h1 s = contents h r"
proof -
  from assms(1) obtain kvs where at: "sessions_at h r = kvs"
    and l: "list_all (is_session h) (map snd kvs)"
    by (rule dict_okD)
  obtain kvs' h' where cp: "copy_sessions kvs h = (kvs', h')"
    by (cases "copy_sessions kvs h")
  from copy_sessions_props [OF cp l] obtain ext where
    ext: "h' = h @ ext" and addrs: "snd ` set kvs' \<subseteq> {length h ..< length h'}"
    and d: "deref h' kvs' = deref h kvs" and ok: "list_all (is_session h') (map snd kvs')"
    by blast
  have res: "s = length h'" "h1 = h' @ [Sessions_dict kvs']"
    using assms(2) at cp by (simp_all add: get_all_obj_def new_def)
  have cs: "cell h1 s = Some (Sessions_dict kvs')" by (simp add: res cell_def)
  then have ats: "sessions_at h1 s = kvs'" by (simp add: sessions_at_def)
  have sess: "\<forall>a \<in> snd ` set kvs'. is_session h1 a"
    using ok by (auto simp: res list_all_iff is_session_append)
  have "\<forall>a \<in> snd ` set kvs'. cell h1 a = cell h' a"
    unfolding res using ok by (rule cells_append_sessions)
  then have "deref h1 kvs' = deref h' kvs'" by (rule deref_cong)
  then have c: "contents h1 s = contents h r" by (simp add: contents_def ats at d)
  have 1: "\<exists>ext. h1 = h @ ext" using ext res by simp
  have fs: "footprint h1 s = insert (length h') (snd ` set kvs')"
    using ats res(1) by (simp add: footprint_def)
  have lens: "length h \<le> length h'" "length h1 = Suc (length h')"
    using ext res(2) by simp_all
  have 2: "footprint h1 s \<subseteq> {length h ..< length h1}"
    unfolding fs using addrs lens by auto
  have 3: "dict_ok h1 s" using cs sess by (rule dict_okI)
  show ?thesis using 1 2 3 c by blast
qed

lemma get_all_obj_step:
  assumes "dict_ok h r"
  shows "step_ok r h (snd (get_all_obj r h)) (\<lambda>st. st)"
proof -
  obtain s h1 where g: "get_all_obj r h = (s, h1)" by (cases "get_all_obj r h")
  from get_all_obj_props [OF assms g] obtain ext where ext: "h1 = h @ ext" by blast
  have fp: "footprint h r \<subseteq> {..< length h}" using assms by (rule footprint_less)
  then have "\<forall>a \<in> footprint h r. cell h1 a = cell h a"
    by (auto simp: ext cell_append_old)
  then have c: "contents h1 r = contents h r \<and> footprint h1 r = footprint h r
         \<and> dict_ok h1 r = dict_ok h r"
    by (rule contents_cong)
  show ?thesis
    unfolding step_ok_def using g c assms by (simp add: ext cell_append_old)
qed

lemma apply_obj_step: "dict_ok h r \<Longrightarrow> step_ok r h (apply_obj r op h) (apply_op op)"
proof (cases op)
  case (Upsert k t m)
  assume "dict_ok h r"
  then have "step_ok r h (upsert_obj r k t m h) (upsert k t m)" by (rule upsert_obj_step)
  moreover have "apply_op op = upsert k t m" using Upsert by (intro ext) simp
  ultimately show ?thesis using Upsert by simp
next
  case (Remove k)
  assume "dict_ok h r"
  then have "step_ok r h (remove_obj r k h) (remove k)" by (rule remove_obj_step)
  moreover have "apply_op op = remove k" using Remove by (intro ext) simp
  ultimately show ?thesis using Remove by simp
next
  case Mark_all_seen
  assume "dict_ok h r"
  then have "step_ok r h (mark_all_seen_obj r h) mark_all_seen"
    by (rule mark_all_seen_obj_step)
  moreover have "apply_op op = mark_all_seen" using Mark_all_seen by (intro ext) simp
  ultimately show ?thesis using Mark_all_seen by simp
next
  case Get_all
  assume "dict_ok h r"
  then have "step_ok r h (snd (get_all_obj r h)) (\<lambda>st. st)" by (rule get_all_obj_step)
  moreover have "apply_op op = (\<lambda>st. st)" using Get_all by (intro ext) simp
  ultimately show ?thesis using Get_all by simp
qed

lemma fold_apply_obj:
  assumes "dict_ok h r"
  shows "dict_ok (fold (apply_obj r) ops h) r
     \<and> length h \<le> length (fold (apply_obj r) ops h)
     \<and> contents (fold (apply_obj r) ops h) r = fold apply_op ops (contents h r)
     \<and> (\<forall>a < length h. a \<notin> footprint h r \<longrightarrow> cell (fold (apply_obj r) ops h) a = cell h a)"
  using assms
proof (induction ops arbitrary: h)
  case Nil
  then show ?case by simp
next
  case (Cons op ops)
  let ?h1 = "apply_obj r op h"
  let ?h2 = "fold (apply_obj r) ops ?h1"
  have st: "step_ok r h ?h1 (apply_op op)" using Cons.prems by (rule apply_obj_step)
  then have ok1: "dict_ok ?h1 r" and len1: "length h \<le> length ?h1"
    and fr1: "\<forall>a < length h. a \<notin> footprint h r \<longrightarrow> cell ?h1 a = cell h a"
    and fp1: "footprint ?h1 r \<subseteq> footprint h r \<union> {length h ..< length ?h1}"
    and c1: "contents ?h1 r = apply_op op (contents h r)"
    by (simp_all add: step_ok_def)
  from Cons.IH [OF ok1] have ok2: "dict_ok ?h2 r" and len2: "length ?h1 \<le> length ?h2"
    and c2: "contents ?h2 r = fold apply_op ops (contents ?h1 r)"
    and fr2: "\<forall>a < length ?h1. a \<notin> footprint ?h1 r \<longrightarrow> cell ?h2 a = cell ?h1 a"
    by simp_all
  have fr: "\<forall>a < length h. a \<notin> footprint h r \<longrightarrow> cell ?h2 a = cell h a"
  proof (intro allI impI)
    fix a assume a: "a < length h" and n: "a \<notin> footprint h r"
    then have "a \<notin> footprint ?h1 r" using fp1 by auto
    moreover have "a < length ?h1" using a len1 by simp
    ultimately have "cell ?h2 a = cell ?h1 a" using fr2 by blast
    then show "cell ?h2 a = cell h a" using fr1 a n by simp
  qed
  show ?case using ok2 len1 len2 c1 c2 fr by simp
qed

text \<open>
  C9. \<open>get_all()\<close> on a well-formed store returns a new dict of sessions that holds,
  by value, what the store holds, and shares no object with it. Whatever a client
  then does to the objects of the returned structure (and to objects it allocates),
  the store's contents, the result of every later sequence of store calls and of
  every later \<open>get_all()\<close> are what they would have been. And no sequence of later
  store calls changes what the returned structure holds.
\<close>

theorem get_all_independent_copy:
  assumes "dict_ok h r" and "get_all_obj r h = (s, h1)"
  shows "contents h1 s = get_all (contents h r)
     \<and> dict_ok h1 s
     \<and> footprint h1 s \<inter> footprint h1 r = {}
     \<and> (\<forall>h2 ops. changes_only (footprint h1 s) h1 h2 \<longrightarrow>
           contents h2 r = contents h r
         \<and> contents (fold (apply_obj r) ops h2) r = fold apply_op ops (contents h r)
         \<and> (\<forall>s2 h3. get_all_obj r h2 = (s2, h3) \<longrightarrow>
               contents h3 s2 = get_all (contents h r)))
     \<and> (\<forall>ops. contents (fold (apply_obj r) ops h1) s = contents h1 s)"
proof -
  from get_all_obj_props [OF assms] obtain ext where ext: "h1 = h @ ext"
    and fps: "footprint h1 s \<subseteq> {length h ..< length h1}"
    and oks: "dict_ok h1 s" and c: "contents h1 s = contents h r"
    by blast
  have fpr: "footprint h r \<subseteq> {..< length h}" using assms(1) by (rule footprint_less)
  then have "\<forall>a \<in> footprint h r. cell h1 a = cell h a"
    by (auto simp: ext cell_append_old)
  then have "contents h1 r = contents h r \<and> footprint h1 r = footprint h r
         \<and> dict_ok h1 r = dict_ok h r"
    by (rule contents_cong)
  then have cr: "contents h1 r = contents h r" and fr: "footprint h1 r = footprint h r"
    and okr: "dict_ok h1 r"
    using assms(1) by simp_all
  have disj: "footprint h1 s \<inter> footprint h1 r = {}"
  proof (rule equals0I)
    fix a assume "a \<in> footprint h1 s \<inter> footprint h1 r"
    then have "a \<in> {length h ..< length h1}" and "a \<in> {..< length h}"
      using fps fpr fr by blast+
    then show False by simp
  qed
  have len: "length h \<le> length h1" using ext by simp
  have mutate: "\<forall>h2 ops. changes_only (footprint h1 s) h1 h2 \<longrightarrow>
           contents h2 r = contents h r
         \<and> contents (fold (apply_obj r) ops h2) r = fold apply_op ops (contents h r)
         \<and> (\<forall>s2 h3. get_all_obj r h2 = (s2, h3) \<longrightarrow>
               contents h3 s2 = get_all (contents h r))"
  proof (intro allI impI)
    fix h2 ops assume ch: "changes_only (footprint h1 s) h1 h2"
    have "\<forall>a \<in> footprint h1 r. cell h2 a = cell h1 a"
    proof
      fix a assume a: "a \<in> footprint h1 r"
      then have "a < length h1" using fr fpr len by auto
      moreover have "a \<notin> footprint h1 s" using a disj by blast
      ultimately show "cell h2 a = cell h1 a" using ch by (simp add: changes_only_cell)
    qed
    then have "contents h2 r = contents h1 r \<and> footprint h2 r = footprint h1 r
         \<and> dict_ok h2 r = dict_ok h1 r"
      by (rule contents_cong)
    then have c2: "contents h2 r = contents h r" and ok2: "dict_ok h2 r"
      using cr okr by simp_all
    have f: "contents (fold (apply_obj r) ops h2) r = fold apply_op ops (contents h r)"
      using fold_apply_obj [OF ok2, of ops] c2 by simp
    have g: "\<forall>s2 h3. get_all_obj r h2 = (s2, h3) \<longrightarrow>
               contents h3 s2 = get_all (contents h r)"
      using get_all_obj_props [OF ok2] c2 by (simp add: get_all_id)
    show "contents h2 r = contents h r
         \<and> contents (fold (apply_obj r) ops h2) r = fold apply_op ops (contents h r)
         \<and> (\<forall>s2 h3. get_all_obj r h2 = (s2, h3) \<longrightarrow>
               contents h3 s2 = get_all (contents h r))"
      using c2 f g by blast
  qed
  have later: "\<forall>ops. contents (fold (apply_obj r) ops h1) s = contents h1 s"
  proof
    fix ops
    have "\<forall>a \<in> footprint h1 s. cell (fold (apply_obj r) ops h1) a = cell h1 a"
    proof
      fix a assume a: "a \<in> footprint h1 s"
      then have "a < length h1" using fps by auto
      moreover have "a \<notin> footprint h1 r" using a disj by blast
      ultimately show "cell (fold (apply_obj r) ops h1) a = cell h1 a"
        using fold_apply_obj [OF okr, of ops] by blast
    qed
    then have "contents (fold (apply_obj r) ops h1) s = contents h1 s
         \<and> footprint (fold (apply_obj r) ops h1) s = footprint h1 s
         \<and> dict_ok (fold (apply_obj r) ops h1) s = dict_ok h1 s"
      by (rule contents_cong)
    then show "contents (fold (apply_obj r) ops h1) s = contents h1 s" by simp
  qed
  have copy: "contents h1 s = get_all (contents h r)" using c by (simp add: get_all_id)
  show ?thesis using copy oks disj mutate later by (intro conjI) assumption+
qed

theorem get_all_independent_copy_witness:
  "dict_ok heap0 0
   \<and> get_all_obj 0 heap0 = (3, heap1)
   \<and> changes_only (footprint heap1 3) heap1 heap2
   \<and> contents heap2 3
       = [(lit ''123'',
           \<lparr>event_title = lit ''build'', event_msg = lit ''MODIFIED'', unseen = True\<rparr>)]
   \<and> contents heap2 0
       = [(lit ''123'',
           \<lparr>event_title = lit ''build'', event_msg = lit ''started'', unseen = True\<rparr>)]
   \<and> contents (fold (apply_obj 0) [Mark_all_seen, Remove (lit ''123'')] heap1) 3
       = [(lit ''123'',
           \<lparr>event_title = lit ''build'', event_msg = lit ''started'', unseen = True\<rparr>)]
   \<and> contents (fold (apply_obj 0) [Mark_all_seen, Remove (lit ''123'')] heap1) 0 = []"
proof -
  have ok: "dict_ok heap0 0"
    by (simp add: dict_ok_def heap0_def cell_def sessions_at_def is_session_def)
  have g: "get_all_obj 0 heap0 = (3, heap1)"
    by (simp add: get_all_obj_def heap0_def heap1_def cell_def sessions_at_def new_def)
  have fp: "footprint heap1 3 = {3, 2}"
    by (simp add: footprint_def heap1_def heap0_def cell_def sessions_at_def)
  have ch: "changes_only (footprint heap1 3) heap1 heap2"
    unfolding fp by (auto simp: changes_only_def heap2_def heap1_def heap0_def nth_Cons'
        nth_list_update)
  have c0: "contents heap0 0
       = [(lit ''123'',
           \<lparr>event_title = lit ''build'', event_msg = lit ''started'', unseen = True\<rparr>)]"
    by (simp add: contents_def heap0_def cell_def sessions_at_def)
  have c1: "contents heap1 3 = contents heap0 0"
    using get_all_independent_copy [OF ok g] by (simp add: get_all_id)
  have m: "contents heap2 0 = contents heap0 0"
    using get_all_independent_copy [OF ok g] ch by blast
  have l: "contents (fold (apply_obj 0) [Mark_all_seen, Remove (lit ''123'')] heap1) 3
             = contents heap1 3"
    using get_all_independent_copy [OF ok g] by blast
  have s: "contents heap2 3
       = [(lit ''123'',
           \<lparr>event_title = lit ''build'', event_msg = lit ''MODIFIED'', unseen = True\<rparr>)]"
    by (simp add: contents_def heap2_def heap1_def heap0_def cell_def sessions_at_def)
  have e: "contents (fold (apply_obj 0) [Mark_all_seen, Remove (lit ''123'')] heap1) 0 = []"
    by (simp add: contents_def heap1_def heap0_def cell_def sessions_at_def
        mark_all_seen_obj_def remove_obj_def set_seen_def)
  show ?thesis using ok g ch s m l e unfolding c1 c0 by (intro conjI) assumption+
qed

end
